theory Spec2Isabelle
  imports Main "HOL-Library.List_Lexorder" "HOL-Library.Char_ord"
begin

section \<open>Text primitives of the host language\<close>

text \<open>
  Text is a list of characters; a character is a code point below 256 and is
  stored as one byte, so the offsets of \<^verbatim>\<open>seek\<close> and the character counts of
  \<^verbatim>\<open>read\<close> and \<^verbatim>\<open>ljust\<close> agree (a single-byte encoding).  Strings are compared
  as lists of characters, lexicographically by character code, as \<^verbatim>\<open>str\<close> values are.
\<close>

abbreviation LF :: char where "LF \<equiv> CHR 0x0A"
abbreviation CR :: char where "CR \<equiv> CHR 0x0D"
abbreviation SP :: char where "SP \<equiv> CHR 0x20"
abbreviation NUL :: char where "NUL \<equiv> CHR 0x00"
abbreviation BAR :: char where "BAR \<equiv> CHR ''|''"
abbreviation COLON :: char where "COLON \<equiv> CHR '':''"

text \<open>
  The characters that \<^verbatim>\<open>str.strip\<close> and \<^verbatim>\<open>str.rstrip\<close> remove: those for which
  \<^verbatim>\<open>str.isspace\<close> holds, among the code points below 256.
\<close>

definition py_isspace :: "char \<Rightarrow> bool" where
  "py_isspace c \<longleftrightarrow>
     c \<in> {CHR 0x09, CHR 0x0A, CHR 0x0B, CHR 0x0C, CHR 0x0D,
          CHR 0x1C, CHR 0x1D, CHR 0x1E, CHR 0x1F, CHR 0x20, CHR 0x85, CHR 0xA0}"

definition lstrip :: "string \<Rightarrow> string" where
  "lstrip s = dropWhile py_isspace s"

definition rstrip :: "string \<Rightarrow> string" where
  "rstrip s = rev (dropWhile py_isspace (rev s))"

definition strip :: "string \<Rightarrow> string" where
  "strip s = rstrip (lstrip s)"

text \<open>\<^verbatim>\<open>s.ljust(n)\<close>: pad with spaces on the right, never shorten.\<close>

definition ljust :: "nat \<Rightarrow> string \<Rightarrow> string" where
  "ljust n s = s @ replicate (n - length s) SP"

text \<open>\<^verbatim>\<open>s.split(sep, n)\<close> for a one-character separator: at most \<open>n\<close> cuts, from the left.\<close>

fun split_max :: "char \<Rightarrow> nat \<Rightarrow> string \<Rightarrow> string list" where
  "split_max sep n [] = [[]]"
| "split_max sep n (c # cs) =
     (if c = sep \<and> 0 < n then [] # split_max sep (n - 1) cs
      else (case split_max sep n cs of
              f # fs \<Rightarrow> (c # f) # fs
            | [] \<Rightarrow> [[c]]))"

text \<open>\<^verbatim>\<open>sep.join(fields)\<close>.\<close>

fun join :: "string \<Rightarrow> string list \<Rightarrow> string" where
  "join sep [] = []"
| "join sep [x] = x"
| "join sep (x # y # ys) = x @ sep @ join sep (y # ys)"

text \<open>
  Files are opened in text mode: on reading, \<^verbatim>\<open>\r\n\<close> and a lone \<^verbatim>\<open>\r\<close> arrive as
  \<^verbatim>\<open>\n\<close>; on writing, text is stored as it is.
\<close>

fun universal_newlines :: "string \<Rightarrow> string" where
  "universal_newlines [] = []"
| "universal_newlines [c] = [if c = CR then LF else c]"
| "universal_newlines (c # d # cs) =
     (if c = CR \<and> d = LF then LF # universal_newlines cs
      else if c = CR then LF # universal_newlines (d # cs)
      else c # universal_newlines (d # cs))"

text \<open>\<^verbatim>\<open>f.readlines()\<close> on translated text: every line keeps its terminator.\<close>

fun readlines :: "string \<Rightarrow> string list" where
  "readlines [] = []"
| "readlines (c # cs) =
     (if c = LF then [c] # readlines cs
      else (case readlines cs of
              l # ls \<Rightarrow> (c # l) # ls
            | [] \<Rightarrow> [[c]]))"

text \<open>\<^verbatim>\<open>str(n)\<close> and \<^verbatim>\<open>int(s)\<close> for decimal integers.\<close>

definition digit_char :: "nat \<Rightarrow> char" where
  "digit_char d = char_of (48 + d)"

definition is_digit :: "char \<Rightarrow> bool" where
  "is_digit c \<longleftrightarrow> 48 \<le> (of_char c :: nat) \<and> (of_char c :: nat) \<le> 57"

definition digit_val :: "char \<Rightarrow> nat" where
  "digit_val c = of_char c - 48"

fun str_nat :: "nat \<Rightarrow> string" where
  "str_nat n = (if n < 10 then [digit_char n] else str_nat (n div 10) @ [digit_char (n mod 10)])"

declare str_nat.simps [simp del]

definition str_int :: "int \<Rightarrow> string" where
  "str_int i = (if i < 0 then CHR ''-'' # str_nat (nat (- i)) else str_nat (nat i))"

text \<open>
  \<^verbatim>\<open>int(s)\<close> skips, before and after the number, the blank, the controls
  \<^verbatim>\<open>\t \n \v \f \r\<close> and the spaces 0x85 and 0xA0; it does not skip the separators
  0x1C to 0x1F, which \<^verbatim>\<open>str.strip\<close> removes.  The number is an optional sign and
  digits, with single underscores allowed between two digits.  Numbers are
  unbounded, as the integers of the language are; an interpreter that refuses
  decimal text beyond a length limit (4300 digits where it is set) differs on
  such text, and no position written by the service comes near it.
\<close>

definition int_isspace :: "char \<Rightarrow> bool" where
  "int_isspace c \<longleftrightarrow>
     c \<in> {CHR 0x09, CHR 0x0A, CHR 0x0B, CHR 0x0C, CHR 0x0D, CHR 0x20, CHR 0x85, CHR 0xA0}"

definition int_strip :: "string \<Rightarrow> string" where
  "int_strip s = rev (dropWhile int_isspace (rev (dropWhile int_isspace s)))"

fun parse_digits :: "nat \<Rightarrow> string \<Rightarrow> nat option" where
  "parse_digits acc [] = Some acc"
| "parse_digits acc (c # cs) =
     (if is_digit c then parse_digits (10 * acc + digit_val c) cs
      else if c = CHR ''_'' \<and> cs \<noteq> [] \<and> is_digit (hd cs) then parse_digits acc cs
      else None)"

definition py_nat :: "string \<Rightarrow> nat option" where
  "py_nat s = (case s of [] \<Rightarrow> None
               | c # _ \<Rightarrow> if is_digit c then parse_digits 0 s else None)"

definition py_int :: "string \<Rightarrow> int option" where
  "py_int s =
     (case int_strip s of
        [] \<Rightarrow> None
      | c # cs \<Rightarrow>
          if c = CHR ''-'' then map_option (\<lambda>n. - int n) (py_nat cs)
          else if c = CHR ''+'' then map_option int (py_nat cs)
          else map_option int (py_nat (c # cs)))"

section \<open>Errors\<close>

text \<open>
  Every \<^verbatim>\<open>raise\<close> of the service and every exception of the primitives it calls.
  All but \<open>IndexError\<close> are \<^verbatim>\<open>ValueError\<close> in the source, told apart by their message.
\<close>

datatype error =
    CarNotFound string          \<comment> \<open>\<^verbatim>\<open>ValueError("Car {vin} not found")\<close>\<close>
  | SaleNotFound string         \<comment> \<open>\<^verbatim>\<open>ValueError("Sale {sales_number} not found")\<close>\<close>
  | InvalidSaleFormat           \<comment> \<open>\<^verbatim>\<open>ValueError("Invalid sale format")\<close>\<close>
  | SaleAlreadyDeleted string   \<comment> \<open>\<^verbatim>\<open>ValueError("Sale {sales_number} already deleted")\<close>\<close>
  | InvalidIntLiteral string    \<comment> \<open>\<^verbatim>\<open>int(pos_str)\<close> on text that is no integer\<close>
  | NegativeSeek                \<comment> \<open>\<^verbatim>\<open>f.seek\<close> to a negative offset\<close>
  | IndexError                  \<comment> \<open>\<^verbatim>\<open>fields[i]\<close> out of range\<close>

section \<open>Record store\<close>

definition RECORD_SIZE :: nat where
  "RECORD_SIZE = 500"

definition RECORD_SIZE_WITH_NL :: nat where
  "RECORD_SIZE_WITH_NL = 501"

text \<open>\<^verbatim>\<open>_format_record\<close>: \<^verbatim>\<open>data.ljust(RECORD_SIZE) + '\n'\<close>.  It has no failing branch.\<close>

definition format_record :: "string \<Rightarrow> string" where
  "format_record data = ljust RECORD_SIZE data @ [LF]"

text \<open>
  Writing \<open>data\<close> at byte offset \<open>off\<close> of a file opened \<^verbatim>\<open>r+\<close>: bytes in place are
  overwritten, the file grows when the write runs past its end, and a gap
  between the old end and \<open>off\<close> reads as zero bytes.
\<close>

definition write_at :: "string \<Rightarrow> nat \<Rightarrow> string \<Rightarrow> string" where
  "write_at content off data =
     (if data = [] then content
      else (let base = content @ replicate (off - length content) NUL
            in take off base @ data @ drop (off + length data) base))"

text \<open>\<^verbatim>\<open>_write_record\<close>: seek to \<open>position * RECORD_SIZE_WITH_NL\<close>, write the record.\<close>

definition write_record :: "string \<Rightarrow> int \<Rightarrow> string \<Rightarrow> error + string" where
  "write_record file position record =
     (if position < 0 then Inl NegativeSeek
      else Inr (write_at file (nat position * RECORD_SIZE_WITH_NL) record))"

text \<open>
  \<^verbatim>\<open>_read_record\<close>: seek, read \<open>RECORD_SIZE\<close> characters, \<^verbatim>\<open>rstrip\<close>.  Reading at or past
  the end of the file gives the empty string.  The offset is taken as a number
  of bytes whatever its size: an offset that no file can have (from \<open>2 ^ 63\<close>, or
  beyond what the file system addresses) is not read in this way by the source,
  and nothing below is stated about a read or a write at such a position.
\<close>

definition read_record :: "string \<Rightarrow> int \<Rightarrow> error + string" where
  "read_record file position =
     (if position < 0 then Inl NegativeSeek
      else Inr (rstrip (take RECORD_SIZE
                  (universal_newlines (drop (nat position * RECORD_SIZE_WITH_NL) file)))))"

text \<open>\<^verbatim>\<open>_find_free_position\<close>: \<^verbatim>\<open>size // RECORD_SIZE_WITH_NL\<close>.  It has no failing branch.\<close>

definition find_free_position :: "string \<Rightarrow> int" where
  "find_free_position data_file = int (length data_file div RECORD_SIZE_WITH_NL)"

section \<open>Index store\<close>

text \<open>
  \<^verbatim>\<open>_load_index\<close>: the lines that contain a colon are stripped and cut at the first
  colon; the position is read with \<^verbatim>\<open>int\<close>; the entries are sorted by key with a
  stable sort.
\<close>

fun parse_index_lines :: "string list \<Rightarrow> error + (string \<times> int) list" where
  "parse_index_lines [] = Inr []"
| "parse_index_lines (line # ls) =
     (if COLON \<in> set line then
        (case split_max COLON 1 (strip line) of
           [key, pos_str] \<Rightarrow>
             (case py_int pos_str of
                None \<Rightarrow> Inl (InvalidIntLiteral pos_str)
              | Some p \<Rightarrow>
                  (case parse_index_lines ls of
                     Inl e \<Rightarrow> Inl e
                   | Inr index \<Rightarrow> Inr ((key, p) # index)))
         | _ \<Rightarrow> Inl (InvalidIntLiteral (strip line)))
      else parse_index_lines ls)"

definition load_index :: "string \<Rightarrow> error + (string \<times> int) list" where
  "load_index index_file =
     (case parse_index_lines (readlines (universal_newlines index_file)) of
        Inl e \<Rightarrow> Inl e
      | Inr index \<Rightarrow> Inr (sort_key fst index))"

text \<open>\<^verbatim>\<open>_save_index\<close>: the file is replaced by one \<^verbatim>\<open>key:pos\<close> line per entry.\<close>

definition save_index :: "(string \<times> int) list \<Rightarrow> string" where
  "save_index index = concat (map (\<lambda>(key, pos). key @ [COLON] @ str_int pos @ [LF]) index)"

text \<open>The loop \<^verbatim>\<open>for v, pos in index: if v == key: ...\<close>: the first entry with the key.\<close>

fun first_match :: "(string \<times> int) list \<Rightarrow> string \<Rightarrow> int option" where
  "first_match [] key = None"
| "first_match ((v, pos) # rest) key = (if v = key then Some pos else first_match rest key)"

text \<open>The same loop under \<^verbatim>\<open>enumerate\<close>: the place of the entry in the list, with its position.\<close>

fun first_match_enum :: "(string \<times> int) list \<Rightarrow> string \<Rightarrow> nat \<Rightarrow> (nat \<times> int) option" where
  "first_match_enum [] key i = None"
| "first_match_enum ((v, pos) # rest) key i =
     (if v = key then Some (i, pos) else first_match_enum rest key (Suc i))"

section \<open>Entities and the six files\<close>

text \<open>
  Modelled from the spec: the entity classes \<^verbatim>\<open>Model\<close>, \<^verbatim>\<open>Car\<close>, \<^verbatim>\<open>Sale\<close>,
  \<^verbatim>\<open>ModelSaleStats\<close> and the enumeration \<^verbatim>\<open>CarStatus\<close> of the module \<^verbatim>\<open>models\<close>,
  which the service imports.  The service only formats their fields into text
  and hands text to their validators, so a field is carried here as the text it
  is formatted to; what \<^verbatim>\<open>Car.model_validate\<close> receives is the car it returns.
\<close>

record Model =
  id_model :: string
  name :: string
  brand :: string

record Car =
  vin :: string
  model :: string
  price :: string
  date_start :: string
  status :: string

record Sale =
  sales_number :: string
  car_vin :: string
  cost :: string
  sales_date :: string

datatype ModelSaleStats =
  ModelSaleStats (car_model_name: string) (stats_brand: string) (stats_sales_number: nat)

definition CarStatus_sold :: string where
  "CarStatus_sold = ''sold''"

definition CarStatus_available :: string where
  "CarStatus_available = ''available''"

record fs =
  models_file :: string
  models_index_file :: string
  cars_file :: string
  cars_index_file :: string
  sales_file :: string
  sales_index_file :: string

text \<open>\<^verbatim>\<open>__init__\<close> on a new directory: six empty files.\<close>

definition init_fs :: fs where
  "init_fs = \<lparr>models_file = [], models_index_file = [], cars_file = [],
              cars_index_file = [], sales_file = [], sales_index_file = []\<rparr>"

section \<open>Entity repository\<close>

text \<open>
  An operation returns its result or the exception it raised, together with the
  files as they are when it returns or raises: a write made before a raise stays.
\<close>

definition model_data :: "Model \<Rightarrow> string" where
  "model_data m = id_model m @ [BAR] @ name m @ [BAR] @ brand m"

definition add_model :: "Model \<Rightarrow> fs \<Rightarrow> (error + Model) \<times> fs" where
  "add_model m st =
     (let formatted = format_record (model_data m);
          position = find_free_position (models_file st)
      in case write_record (models_file st) position formatted of
           Inl e \<Rightarrow> (Inl e, st)
         | Inr data \<Rightarrow>
             (let st1 = st\<lparr>models_file := data\<rparr>
              in case load_index (models_index_file st1) of
                   Inl e \<Rightarrow> (Inl e, st1)
                 | Inr index \<Rightarrow>
                     (Inr m, st1\<lparr>models_index_file :=
                        save_index (sort_key fst (index @ [(id_model m, position)]))\<rparr>)))"

definition car_data :: "Car \<Rightarrow> string" where
  "car_data car = vin car @ [BAR] @ model car @ [BAR] @ price car @ [BAR]
                    @ date_start car @ [BAR] @ status car"

definition add_car :: "Car \<Rightarrow> fs \<Rightarrow> (error + Car) \<times> fs" where
  "add_car car st =
     (let formatted = format_record (car_data car);
          position = find_free_position (cars_file st)
      in case write_record (cars_file st) position formatted of
           Inl e \<Rightarrow> (Inl e, st)
         | Inr data \<Rightarrow>
             (let st1 = st\<lparr>cars_file := data\<rparr>
              in case load_index (cars_index_file st1) of
                   Inl e \<Rightarrow> (Inl e, st1)
                 | Inr index \<Rightarrow>
                     (Inr car, st1\<lparr>cars_index_file :=
                        save_index (sort_key fst (index @ [(vin car, position)]))\<rparr>)))"

text \<open>\<^verbatim>\<open>_find_car_by_vin\<close>: the record at the first index entry with this VIN, or \<^verbatim>\<open>None\<close>.\<close>

definition find_car_by_vin :: "string \<Rightarrow> fs \<Rightarrow> error + string option" where
  "find_car_by_vin v st =
     (case load_index (cars_index_file st) of
        Inl e \<Rightarrow> Inl e
      | Inr index \<Rightarrow>
          (case first_match index v of
             None \<Rightarrow> Inr None
           | Some pos \<Rightarrow>
               (case read_record (cars_file st) pos of
                  Inl e \<Rightarrow> Inl e
                | Inr record \<Rightarrow> Inr (Some record))))"

text \<open>
  \<^verbatim>\<open>_get_car_by_vin\<close>: \<^verbatim>\<open>None\<close> and the empty record raise; a record with fewer than
  five fields raises at \<^verbatim>\<open>fields[i]\<close>.
\<close>

definition decode_car :: "string list \<Rightarrow> Car" where
  "decode_car flds =
     \<lparr>vin = strip (flds ! 0), model = strip (flds ! 1), price = strip (flds ! 2),
      date_start = strip (flds ! 3), status = strip (flds ! 4)\<rparr>"

definition get_car_by_vin :: "string \<Rightarrow> fs \<Rightarrow> error + Car" where
  "get_car_by_vin v st =
     (case find_car_by_vin v st of
        Inl e \<Rightarrow> Inl e
      | Inr None \<Rightarrow> Inl (CarNotFound v)
      | Inr (Some data) \<Rightarrow>
          if data = [] then Inl (CarNotFound v)
          else (let flds = split_max BAR 4 data
                in if length flds < 5 then Inl IndexError
                   else Inr (decode_car flds)))"

text \<open>
  \<^verbatim>\<open>_update_car_status\<close>: rewrite the fifth field of the first record indexed under
  the VIN; return silently when the VIN is not indexed or the record does not
  have five flds.
\<close>

definition update_car_status :: "string \<Rightarrow> string \<Rightarrow> fs \<Rightarrow> (error + unit) \<times> fs" where
  "update_car_status v new_status st =
     (case load_index (cars_index_file st) of
        Inl e \<Rightarrow> (Inl e, st)
      | Inr cars_index \<Rightarrow>
          (case first_match cars_index v of
             None \<Rightarrow> (Inr (), st)
           | Some pos \<Rightarrow>
               (case read_record (cars_file st) pos of
                  Inl e \<Rightarrow> (Inl e, st)
                | Inr record \<Rightarrow>
                    (let flds = split_max BAR 4 record
                     in if length flds = 5 then
                          (case write_record (cars_file st) pos
                                  (format_record (join [BAR] (flds[4 := new_status]))) of
                             Inl e \<Rightarrow> (Inl e, st)
                           | Inr data \<Rightarrow> (Inr (), st\<lparr>cars_file := data\<rparr>))
                        else (Inr (), st)))))"

definition sale_data :: "Sale \<Rightarrow> string" where
  "sale_data sale = sales_number sale @ [BAR] @ car_vin sale @ [BAR] @ cost sale @ [BAR]
                      @ sales_date sale @ [BAR] @ ''False''"

definition sell_car :: "Sale \<Rightarrow> fs \<Rightarrow> (error + Car) \<times> fs" where
  "sell_car sale st =
     (let formatted = format_record (sale_data sale);
          position = find_free_position (sales_file st)
      in case write_record (sales_file st) position formatted of
           Inl e \<Rightarrow> (Inl e, st)
         | Inr data \<Rightarrow>
             (let st1 = st\<lparr>sales_file := data\<rparr>
              in case load_index (sales_index_file st1) of
                   Inl e \<Rightarrow> (Inl e, st1)
                 | Inr index \<Rightarrow>
                     (let st2 = st1\<lparr>sales_index_file :=
                                  save_index (sort_key fst (index @ [(sales_number sale, position)]))\<rparr>
                      in case update_car_status (car_vin sale) CarStatus_sold st2 of
                           (Inl e, st3) \<Rightarrow> (Inl e, st3)
                         | (Inr u, st3) \<Rightarrow> (get_car_by_vin (car_vin sale) st3, st3))))"

text \<open>\<^verbatim>\<open>get_cars\<close>: the loop over \<^verbatim>\<open>range(total_records)\<close>, appending to \<^verbatim>\<open>cars\<close>.\<close>

fun get_cars_loop :: "string \<Rightarrow> string \<Rightarrow> nat list \<Rightarrow> Car list \<Rightarrow> error + Car list" where
  "get_cars_loop file st_value [] cars = Inr cars"
| "get_cars_loop file st_value (pos # rest) cars =
     (case read_record file (int pos) of
        Inl e \<Rightarrow> Inl e
      | Inr record \<Rightarrow>
          if strip record \<noteq> [] then
            (let flds = split_max BAR 4 record
             in if length flds = 5 \<and> strip (flds ! 4) = st_value
                then get_cars_loop file st_value rest (cars @ [decode_car flds])
                else get_cars_loop file st_value rest cars)
          else get_cars_loop file st_value rest cars)"

definition get_cars :: "string \<Rightarrow> fs \<Rightarrow> error + Car list" where
  "get_cars st_value st =
     (let file_size = length (cars_file st)
      in if file_size = 0 then Inr []
         else get_cars_loop (cars_file st) st_value [0 ..< file_size div RECORD_SIZE_WITH_NL] [])"

text \<open>\<^verbatim>\<open>update_vin\<close>.\<close>

definition update_vin :: "string \<Rightarrow> string \<Rightarrow> fs \<Rightarrow> (error + Car) \<times> fs" where
  "update_vin v new_vin st =
     (case load_index (cars_index_file st) of
        Inl e \<Rightarrow> (Inl e, st)
      | Inr cars_index \<Rightarrow>
          (case first_match_enum cars_index v 0 of
             None \<Rightarrow> (Inl (CarNotFound v), st)
           | Some (index_entry, position) \<Rightarrow>
               (case read_record (cars_file st) position of
                  Inl e \<Rightarrow> (Inl e, st)
                | Inr record \<Rightarrow>
                    (let flds = split_max BAR 4 record
                     in case (if length flds = 5
                              then write_record (cars_file st) position
                                     (format_record (join [BAR] (flds[0 := new_vin])))
                              else Inr (cars_file st)) of
                          Inl e \<Rightarrow> (Inl e, st)
                        | Inr data \<Rightarrow>
                            (let st1 = st\<lparr>cars_file := data,
                                          cars_index_file := save_index (sort_key fst
                                            (cars_index[index_entry := (new_vin, position)]))\<rparr>
                             in (get_car_by_vin new_vin st1, st1))))))"

text \<open>\<^verbatim>\<open>revert_sale\<close>.\<close>

definition revert_sale :: "string \<Rightarrow> fs \<Rightarrow> (error + Car) \<times> fs" where
  "revert_sale number st =
     (case load_index (sales_index_file st) of
        Inl e \<Rightarrow> (Inl e, st)
      | Inr sales_index \<Rightarrow>
          (case first_match sales_index number of
             None \<Rightarrow> (Inl (SaleNotFound number), st)
           | Some position \<Rightarrow>
               (case read_record (sales_file st) position of
                  Inl e \<Rightarrow> (Inl e, st)
                | Inr record \<Rightarrow>
                    (let flds = split_max BAR 4 record
                     in if length flds \<noteq> 5 then (Inl InvalidSaleFormat, st)
                        else if strip (flds ! 4) = ''True''
                        then (Inl (SaleAlreadyDeleted number), st)
                        else
                          (case write_record (sales_file st) position
                                  (format_record (join [BAR] (flds[4 := ''True'']))) of
                             Inl e \<Rightarrow> (Inl e, st)
                           | Inr data \<Rightarrow>
                               (let st1 = st\<lparr>sales_file := data\<rparr>;
                                    v = strip (flds ! 1)
                                in case update_car_status v CarStatus_available st1 of
                                     (Inl e, st2) \<Rightarrow> (Inl e, st2)
                                   | (Inr u, st2) \<Rightarrow> (get_car_by_vin v st2, st2)))))))"

text \<open>
  \<^verbatim>\<open>top_models_by_sales\<close>.  \<^verbatim>\<open>model_sales\<close> is a \<^verbatim>\<open>defaultdict(int)\<close>: its items come in
  the order in which the keys were first counted.
\<close>

fun bump :: "(string \<times> nat) list \<Rightarrow> string \<Rightarrow> (string \<times> nat) list" where
  "bump [] k = [(k, 1)]"
| "bump ((k', c) # rest) k = (if k' = k then (k', c + 1) # rest else (k', c) # bump rest k)"

fun count_sales_loop :: "fs \<Rightarrow> nat list \<Rightarrow> (string \<times> nat) list \<Rightarrow> error + (string \<times> nat) list" where
  "count_sales_loop st [] model_sales = Inr model_sales"
| "count_sales_loop st (pos # rest) model_sales =
     (case read_record (sales_file st) (int pos) of
        Inl e \<Rightarrow> Inl e
      | Inr record \<Rightarrow>
          if strip record = [] then count_sales_loop st rest model_sales
          else (let flds = split_max BAR 4 record
                in if length flds = 5 \<and> strip (flds ! 4) = ''False'' then
                     (case find_car_by_vin (strip (flds ! 1)) st of
                        Inl e \<Rightarrow> Inl e
                      | Inr None \<Rightarrow> count_sales_loop st rest model_sales
                      | Inr (Some car_record) \<Rightarrow>
                          if car_record = [] then count_sales_loop st rest model_sales
                          else (let c_flds = split_max BAR 4 car_record
                                in if length c_flds = 5
                                   then count_sales_loop st rest
                                          (bump model_sales (strip (c_flds ! 1)))
                                   else count_sales_loop st rest model_sales))
                   else count_sales_loop st rest model_sales))"

fun models_data_loop ::
  "string \<Rightarrow> (string \<times> int) list \<Rightarrow> (string \<rightharpoonup> string \<times> string)
     \<Rightarrow> error + (string \<rightharpoonup> string \<times> string)" where
  "models_data_loop file [] models_data = Inr models_data"
| "models_data_loop file ((m_id, pos) # rest) models_data =
     (case read_record file pos of
        Inl e \<Rightarrow> Inl e
      | Inr model_record \<Rightarrow>
          if strip model_record \<noteq> [] then
            (let m_flds = split_max BAR 2 model_record
             in if length m_flds = 3
                then models_data_loop file rest
                       (models_data(m_id \<mapsto> (strip (m_flds ! 1), strip (m_flds ! 2))))
                else models_data_loop file rest models_data)
          else models_data_loop file rest models_data)"

fun result_loop ::
  "(string \<times> nat) list \<Rightarrow> (string \<rightharpoonup> string \<times> string) \<Rightarrow> ModelSaleStats list" where
  "result_loop [] models_data = []"
| "result_loop ((m_id, sales_count) # rest) models_data =
     (case models_data m_id of
        Some (m_name, m_brand) \<Rightarrow>
          ModelSaleStats m_name m_brand sales_count # result_loop rest models_data
      | None \<Rightarrow> result_loop rest models_data)"

text \<open>\<^verbatim>\<open>sorted(items, key=lambda x: x[1], reverse=True)[:3]\<close>: stable, largest count first.\<close>

definition sorted_models :: "(string \<times> nat) list \<Rightarrow> (string \<times> nat) list" where
  "sorted_models model_sales = take 3 (sort_key (\<lambda>x. - int (snd x)) model_sales)"

definition top_models_by_sales :: "fs \<Rightarrow> error + ModelSaleStats list" where
  "top_models_by_sales st =
     (let file_size = length (sales_file st)
      in if file_size = 0 then Inr []
         else (case count_sales_loop st [0 ..< file_size div RECORD_SIZE_WITH_NL] [] of
                 Inl e \<Rightarrow> Inl e
               | Inr model_sales \<Rightarrow>
                   (case load_index (models_index_file st) of
                      Inl e \<Rightarrow> Inl e
                    | Inr models_index \<Rightarrow>
                        (case models_data_loop (models_file st) models_index Map.empty of
                           Inl e \<Rightarrow> Inl e
                         | Inr models_data \<Rightarrow>
                             Inr (result_loop (sorted_models model_sales) models_data)))))"

section \<open>What the scans are to return\<close>

text \<open>The record that a scan reads in slot \<open>pos\<close> of a data file.\<close>

definition slot_record :: "string \<Rightarrow> nat \<Rightarrow> string" where
  "slot_record file pos =
     rstrip (take RECORD_SIZE (universal_newlines (drop (pos * RECORD_SIZE_WITH_NL) file)))"

text \<open>
  The cars of status \<open>s\<close>, in the words of the specification: the slots of the
  cars file, in ascending order, whose record is a car with stored status \<open>s\<close>.
\<close>

definition slot_has_status :: "string \<Rightarrow> string \<Rightarrow> nat \<Rightarrow> bool" where
  "slot_has_status file s pos \<longleftrightarrow>
     strip (slot_record file pos) \<noteq> []
     \<and> length (split_max BAR 4 (slot_record file pos)) = 5
     \<and> strip (split_max BAR 4 (slot_record file pos) ! 4) = s"

definition car_at :: "string \<Rightarrow> nat \<Rightarrow> Car" where
  "car_at file pos = decode_car (split_max BAR 4 (slot_record file pos))"

definition cars_with_status :: "string \<Rightarrow> string \<Rightarrow> Car list" where
  "cars_with_status file s =
     map (car_at file)
       (filter (slot_has_status file s) [0 ..< length file div RECORD_SIZE_WITH_NL])"

text \<open>
  The model that the sale in slot \<open>pos\<close> counts for: the sale is not deleted, its
  VIN is in the cars index, and the record of that car has five fields.
\<close>

definition sale_model :: "fs \<Rightarrow> nat \<Rightarrow> string option" where
  "sale_model st pos =
     (let record = slot_record (sales_file st) pos;
          flds = split_max BAR 4 record
      in if strip record \<noteq> [] \<and> length flds = 5 \<and> strip (flds ! 4) = ''False'' then
           (case find_car_by_vin (strip (flds ! 1)) st of
              Inr (Some car_record) \<Rightarrow>
                if car_record \<noteq> [] \<and> length (split_max BAR 4 car_record) = 5
                then Some (strip (split_max BAR 4 car_record ! 1))
                else None
            | _ \<Rightarrow> None)
         else None)"

definition sales_of_model :: "fs \<Rightarrow> string \<Rightarrow> nat" where
  "sales_of_model st m =
     length (filter (\<lambda>pos. sale_model st pos = Some m)
               [0 ..< length (sales_file st) div RECORD_SIZE_WITH_NL])"

section \<open>Well-formed keys and fields\<close>

text \<open>
  A key that a line \<^verbatim>\<open>key:pos\<close> of an index file gives back on loading: it has no
  colon and no line break in it and does not begin with a space character.
\<close>

definition key_ok :: "string \<Rightarrow> bool" where
  "key_ok k \<longleftrightarrow> COLON \<notin> set k \<and> LF \<notin> set k \<and> CR \<notin> set k \<and> lstrip k = k"

text \<open>The line that \<^verbatim>\<open>_save_index\<close> writes for one entry.\<close>

definition index_line :: "string \<times> int \<Rightarrow> string" where
  "index_line e = fst e @ [COLON] @ str_int (snd e) @ [LF]"

text \<open>
  A car whose text survives the record format: no field before the last holds the
  field separator, no field begins or ends with a space character, the payload
  holds no carriage return and fits the slot.
\<close>

definition car_text_ok :: "Car \<Rightarrow> bool" where
  "car_text_ok car \<longleftrightarrow>
     BAR \<notin> set (vin car) \<and> BAR \<notin> set (model car) \<and> BAR \<notin> set (price car)
     \<and> BAR \<notin> set (date_start car)
     \<and> strip (vin car) = vin car \<and> strip (model car) = model car
     \<and> strip (price car) = price car \<and> strip (date_start car) = date_start car
     \<and> strip (status car) = status car
     \<and> CR \<notin> set (car_data car) \<and> length (car_data car) \<le> RECORD_SIZE"

text \<open>The same for a sale; its VIN is read back stripped, its last field is fixed.\<close>

definition sale_text_ok :: "Sale \<Rightarrow> bool" where
  "sale_text_ok sale \<longleftrightarrow>
     BAR \<notin> set (sales_number sale) \<and> BAR \<notin> set (car_vin sale) \<and> BAR \<notin> set (cost sale)
     \<and> BAR \<notin> set (sales_date sale) \<and> strip (car_vin sale) = car_vin sale
     \<and> CR \<notin> set (sale_data sale) \<and> length (sale_data sale) \<le> RECORD_SIZE"

section \<open>Concrete entities for instances\<close>

definition car_1 :: Car where
  "car_1 = \<lparr>vin = ''KNAGM4A77D5316538'', model = ''1'', price = ''2000'',
            date_start = ''2024-02-08T00:00:00'', status = ''available''\<rparr>"

definition car_1b :: Car where
  "car_1b = \<lparr>vin = ''KNAGM4A77D5316538'', model = ''2'', price = ''3000'',
             date_start = ''2024-03-09T00:00:00'', status = ''reserve''\<rparr>"

text \<open>A car whose payload has 507 characters, and a car with the separator in its VIN.\<close>

definition car_long :: Car where
  "car_long = \<lparr>vin = replicate 470 (CHR ''A''), model = ''1'', price = ''2000'',
               date_start = ''2024-02-08T00:00:00'', status = ''available''\<rparr>"

definition car_bar :: Car where
  "car_bar = \<lparr>vin = ''A|B'', model = ''1'', price = ''2000'',
              date_start = ''2024-02-08T00:00:00'', status = ''available''\<rparr>"

text \<open>Cars with a colon in the VIN and with a VIN that begins with a blank.\<close>

definition car_colon :: Car where
  "car_colon = \<lparr>vin = ''a:b'', model = ''1'', price = ''2000'',
                date_start = ''2024-02-08T00:00:00'', status = ''available''\<rparr>"

definition car_blank :: Car where
  "car_blank = \<lparr>vin = '' V'', model = ''1'', price = ''2000'',
                date_start = ''2024-02-08T00:00:00'', status = ''available''\<rparr>"

definition sale_1 :: Sale where
  "sale_1 = \<lparr>sales_number = ''20240903#KNAGM4A77D5316538'', car_vin = ''KNAGM4A77D5316538'',
             cost = ''1999.09'', sales_date = ''2024-09-03T00:00:00''\<rparr>"

text \<open>Sales of \<open>car_1\<close> under numbers that hold a colon and the separator.\<close>

definition sale_colon :: Sale where
  "sale_colon = \<lparr>sales_number = ''S:1'', car_vin = ''KNAGM4A77D5316538'',
                 cost = ''1999.09'', sales_date = ''2024-09-03T00:00:00''\<rparr>"

definition sale_bar :: Sale where
  "sale_bar = \<lparr>sales_number = ''S|1'', car_vin = ''KNAGM4A77D5316538'',
               cost = ''1999.09'', sales_date = ''2024-09-03T00:00:00''\<rparr>"

text \<open>The new store after \<open>add_car car_1\<close>.\<close>

definition store_1 :: fs where
  "store_1 = snd (add_car car_1 init_fs)"

text \<open>
  The store of the aggregation example: two models, five cars, five sales, the
  last sale reverted.
\<close>

definition model_A :: Model where
  "model_A = \<lparr>id_model = ''1'', name = ''Optima'', brand = ''Kia''\<rparr>"

definition model_B :: Model where
  "model_B = \<lparr>id_model = ''2'', name = ''Sorento'', brand = ''Kia''\<rparr>"

definition car_of :: "string \<Rightarrow> string \<Rightarrow> Car" where
  "car_of v m = \<lparr>vin = v, model = m, price = ''2000'', date_start = ''2024-02-08T00:00:00'',
                 status = ''available''\<rparr>"

definition sale_of :: "string \<Rightarrow> string \<Rightarrow> Sale" where
  "sale_of n v = \<lparr>sales_number = n, car_vin = v, cost = ''1999.09'',
                  sales_date = ''2024-09-03T00:00:00''\<rparr>"

definition example_ops :: "(fs \<Rightarrow> fs) list" where
  "example_ops =
     [\<lambda>st. snd (add_model model_A st), \<lambda>st. snd (add_model model_B st),
      \<lambda>st. snd (add_car (car_of ''VIN-A1'' ''1'') st), \<lambda>st. snd (add_car (car_of ''VIN-A2'' ''1'') st),
      \<lambda>st. snd (add_car (car_of ''VIN-A3'' ''1'') st), \<lambda>st. snd (add_car (car_of ''VIN-B1'' ''2'') st),
      \<lambda>st. snd (add_car (car_of ''VIN-A4'' ''1'') st),
      \<lambda>st. snd (sell_car (sale_of ''S1'' ''VIN-A1'') st), \<lambda>st. snd (sell_car (sale_of ''S2'' ''VIN-A2'') st),
      \<lambda>st. snd (sell_car (sale_of ''S3'' ''VIN-A3'') st), \<lambda>st. snd (sell_car (sale_of ''S4'' ''VIN-B1'') st),
      \<lambda>st. snd (sell_car (sale_of ''S5'' ''VIN-A4'') st),
      \<lambda>st. snd (revert_sale ''S5'' st)]"

definition example_store :: fs where
  "example_store = fold (\<lambda>op st. op st) example_ops init_fs"

section \<open>Data files as lists of payloads\<close>

text \<open>The data file whose slots hold the given payloads, in order.\<close>

definition data_file :: "string list \<Rightarrow> string" where
  "data_file payloads = concat (map format_record payloads)"

text \<open>A payload that fits a slot and reads back as it was written, but for trailing spaces.\<close>

definition payload_ok :: "string \<Rightarrow> bool" where
  "payload_ok d \<longleftrightarrow> length d \<le> RECORD_SIZE \<and> CR \<notin> set d"

text \<open>An index as \<^verbatim>\<open>_load_index\<close> returns it: sorted by key, every key one that loads.\<close>

definition index_ok :: "(string \<times> int) list \<Rightarrow> bool" where
  "index_ok index \<longleftrightarrow> sorted (map fst index) \<and> list_all (\<lambda>e. key_ok (fst e)) index"

definition payloads_ok :: "string list \<Rightarrow> bool" where
  "payloads_ok payloads \<longleftrightarrow> list_all payload_ok payloads"

text \<open>The store whose data files hold the given payloads and whose index files hold the given entries.\<close>

definition store ::
  "string list \<Rightarrow> (string \<times> int) list \<Rightarrow> string list \<Rightarrow> (string \<times> int) list
     \<Rightarrow> string list \<Rightarrow> (string \<times> int) list \<Rightarrow> fs" where
  "store ms mi cs ci ss si =
     \<lparr>models_file = data_file ms, models_index_file = save_index mi,
      cars_file = data_file cs, cars_index_file = save_index ci,
      sales_file = data_file ss, sales_index_file = save_index si\<rparr>"

section \<open>Sequences of additions and renamings\<close>

text \<open>
  An addition of a car or a renaming of a key, as a value, and the files that a
  sequence of them leaves; an operation that raises leaves what it had written.
\<close>

datatype repo_op = Add Car | Rename string string

fun apply_op :: "repo_op \<Rightarrow> fs \<Rightarrow> fs" where
  "apply_op (Add car) st = snd (add_car car st)"
| "apply_op (Rename v new_vin) st = snd (update_vin v new_vin st)"

definition run_ops :: "repo_op list \<Rightarrow> fs \<Rightarrow> fs" where
  "run_ops rops st = fold apply_op rops st"

text \<open>
  An operation whose text survives the formats: a car as above under a VIN that
  can stand as a key; a new VIN that can stand as a key, holds no separator, does
  not end with a space character and is not longer than the VIN it replaces.
\<close>

fun op_ok :: "repo_op \<Rightarrow> bool" where
  "op_ok (Add car) = (key_ok (vin car) \<and> car_text_ok car)"
| "op_ok (Rename v new_vin) =
     (key_ok new_vin \<and> BAR \<notin> set new_vin \<and> strip new_vin = new_vin
      \<and> length new_vin \<le> length v)"

text \<open>
  The cars of a list against an index: the index is sorted with keys that load,
  it has as many entries as there are cars, no position twice, and every entry
  points at a car of the list that has the key as its VIN.
\<close>

definition repo_inv :: "Car list \<Rightarrow> (string \<times> int) list \<Rightarrow> bool" where
  "repo_inv cars index \<longleftrightarrow>
     list_all car_text_ok cars \<and> index_ok index \<and> distinct (map snd index)
     \<and> length index = length cars
     \<and> list_all (\<lambda>e. 0 \<le> snd e \<and> nat (snd e) < length cars
                      \<and> vin (cars ! nat (snd e)) = fst e) index"

text \<open>A car whose VIN holds a line break.\<close>

definition car_lines :: Car where
  "car_lines = \<lparr>vin = ''a:5'' @ [LF] @ ''b'', model = ''1'', price = ''2000'',
                date_start = ''2024-02-08T00:00:00'', status = ''available''\<rparr>"

section \<open>Facts about the text primitives\<close>

lemma not_space_chars [simp]:
  "\<not> py_isspace BAR" "\<not> py_isspace COLON" "py_isspace LF" "py_isspace SP" "py_isspace CR"
  by (simp_all add: py_isspace_def)

lemma rstrip_Nil [simp]: "rstrip [] = []"
  by (simp add: rstrip_def)

lemma rstrip_snoc: "rstrip (s @ [c]) = (if py_isspace c then rstrip s else s @ [c])"
  by (simp add: rstrip_def)

lemma rstrip_append_spaces: "\<forall>c\<in>set ws. py_isspace c \<Longrightarrow> rstrip (s @ ws) = rstrip s"
  by (induction ws rule: rev_induct) (simp_all add: rstrip_snoc flip: append_assoc)

lemma rstrip_id: "s = [] \<or> \<not> py_isspace (last s) \<Longrightarrow> rstrip s = s"
  by (cases s rule: rev_cases) (auto simp: rstrip_snoc)

lemma rstrip_last: "rstrip s = [] \<or> \<not> py_isspace (last (rstrip s))"
  by (induction s rule: rev_induct) (auto simp: rstrip_snoc)

lemma rstrip_idem [simp]: "rstrip (rstrip s) = rstrip s"
  using rstrip_last [of s] by (rule rstrip_id)

lemma set_rstrip: "set (rstrip s) \<subseteq> set s"
  by (induction s rule: rev_induct) (auto simp: rstrip_snoc)

lemma length_rstrip: "length (rstrip s) \<le> length s"
  by (induction s rule: rev_induct) (auto simp: rstrip_snoc)

lemma lstrip_id: "s = [] \<or> \<not> py_isspace (hd s) \<Longrightarrow> lstrip s = s"
  by (cases s) (auto simp: lstrip_def)

lemma lstrip_hd: "lstrip s = [] \<or> \<not> py_isspace (hd (lstrip s))"
  unfolding lstrip_def by (metis dropWhile_eq_Nil_conv hd_dropWhile)

lemma strip_id: "s = [] \<or> (\<not> py_isspace (hd s) \<and> \<not> py_isspace (last s)) \<Longrightarrow> strip s = s"
  by (auto simp: strip_def lstrip_id rstrip_id)

lemma split_max_zero [simp]: "split_max sep 0 s = [s]"
  by (induction s) simp_all

lemma split_max_no_sep: "sep \<notin> set s \<Longrightarrow> split_max sep n s = [s]"
  by (induction s) auto

lemma split_max_append:
  "sep \<notin> set a \<Longrightarrow> split_max sep (Suc n) (a @ sep # b) = a # split_max sep n b"
  by (induction a) auto

lemma split_max_not_Nil [simp]: "split_max sep n s \<noteq> []"
  by (induction s arbitrary: n) (auto split: list.splits)

lemma length_split_max: "length (split_max sep n s) \<le> Suc n"
proof (induction s arbitrary: n)
  case Nil then show ?case by simp
next
  case (Cons c cs)
  show ?case
  proof (cases "c = sep \<and> 0 < n")
    case True
    then show ?thesis using Cons [of "n - 1"] by auto
  next
    case False
    then show ?thesis using Cons [of n] by (auto split: list.splits)
  qed
qed

lemma join_split_max: "join [sep] (split_max sep n s) = s"
proof (induction s arbitrary: n)
  case Nil then show ?case by simp
next
  case (Cons c cs)
  show ?case
  proof (cases "c = sep \<and> 0 < n")
    case True
    then show ?thesis using Cons [of "n - 1"]
      by (cases "split_max sep (n - 1) cs") auto
  next
    case False
    then show ?thesis using Cons [of n]
      by (cases "split_max sep n cs"; cases "tl (split_max sep n cs)") auto
  qed
qed

lemma universal_newlines_Cons:
  "c \<noteq> CR \<Longrightarrow> universal_newlines (c # cs) = c # universal_newlines cs"
  by (cases cs) simp_all

lemma universal_newlines_append:
  "CR \<notin> set a \<Longrightarrow> universal_newlines (a @ b) = a @ universal_newlines b"
  by (induction a) (auto simp: universal_newlines_Cons)

lemma universal_newlines_id: "CR \<notin> set a \<Longrightarrow> universal_newlines a = a"
  using universal_newlines_append [of a "[]"] by simp

lemma universal_newlines_no_CR: "CR \<notin> set (universal_newlines s)"
  by (induction s rule: universal_newlines.induct) auto

lemma set_universal_newlines: "set (universal_newlines s) \<subseteq> insert LF (set s)"
  by (induction s rule: universal_newlines.induct) auto

section \<open>Facts about the index store\<close>

lemma digit_char_props:
  "d < 10 \<Longrightarrow> is_digit (digit_char d) \<and> digit_val (digit_char d) = d"
  by (simp add: is_digit_def digit_val_def digit_char_def)

lemma digit_not_special:
  "is_digit c \<Longrightarrow> \<not> py_isspace c \<and> c \<noteq> CHR ''-'' \<and> c \<noteq> CHR ''+'' \<and> c \<noteq> CHR ''_''
      \<and> c \<noteq> CR \<and> c \<noteq> LF \<and> c \<noteq> COLON \<and> c \<noteq> BAR"
  by (auto simp: is_digit_def py_isspace_def)

lemma str_nat_digits: "\<forall>c\<in>set (str_nat n). is_digit c"
proof (induction n rule: str_nat.induct)
  case (1 n)
  show ?case
  proof (cases "n < 10")
    case True
    then show ?thesis by (simp add: str_nat.simps [of n] digit_char_props)
  next
    case False
    then show ?thesis using 1 by (simp add: str_nat.simps [of n] digit_char_props)
  qed
qed

lemma str_nat_not_Nil [simp]: "str_nat n \<noteq> []"
  by (subst str_nat.simps) simp

lemma parse_digits_append:
  "\<forall>c\<in>set s. is_digit c \<Longrightarrow>
     parse_digits acc (s @ t) = parse_digits (foldl (\<lambda>a c. 10 * a + digit_val c) acc s) t"
  by (induction s arbitrary: acc) simp_all

lemma foldl_str_nat: "foldl (\<lambda>a c. 10 * a + digit_val c) 0 (str_nat n) = n"
proof (induction n rule: str_nat.induct)
  case (1 n)
  show ?case
  proof (cases "n < 10")
    case True
    then show ?thesis by (simp add: str_nat.simps [of n] digit_char_props)
  next
    case False
    then show ?thesis using 1 by (simp add: str_nat.simps [of n] digit_char_props)
  qed
qed

lemma py_nat_str_nat: "py_nat (str_nat n) = Some n"
proof -
  have "parse_digits 0 (str_nat n @ []) = Some n"
    by (subst parse_digits_append) (simp_all add: str_nat_digits foldl_str_nat)
  moreover have "is_digit (hd (str_nat n))"
    using str_nat_digits [of n] str_nat_not_Nil [of n] by (cases "str_nat n") auto
  ultimately show ?thesis
    by (cases "str_nat n") (auto simp: py_nat_def)
qed

lemma str_int_no_special:
  "\<forall>c\<in>set (str_int i). \<not> py_isspace c \<and> c \<noteq> CR \<and> c \<noteq> LF \<and> c \<noteq> COLON \<and> c \<noteq> BAR"
  using str_nat_digits digit_not_special
  by (auto simp: str_int_def py_isspace_def)

lemma str_int_not_Nil [simp]: "str_int i \<noteq> []"
  by (simp add: str_int_def)

lemma strip_str_int: "strip (str_int i) = str_int i"
proof (rule strip_id)
  have "hd (str_int i) \<in> set (str_int i)" "last (str_int i) \<in> set (str_int i)" by simp_all
  then show "str_int i = [] \<or> \<not> py_isspace (hd (str_int i)) \<and> \<not> py_isspace (last (str_int i))"
    using str_int_no_special by blast
qed

lemma int_isspace_py: "int_isspace c \<Longrightarrow> py_isspace c"
  by (auto simp: int_isspace_def py_isspace_def)

lemma int_strip_str_int: "int_strip (str_int i) = str_int i"
proof -
  have h: "hd (str_int i) \<in> set (str_int i)" and l: "last (str_int i) \<in> set (str_int i)"
    by simp_all
  have "\<not> int_isspace (hd (str_int i))" using h str_int_no_special int_isspace_py by blast
  then have d: "dropWhile int_isspace (str_int i) = str_int i"
    by (cases "str_int i") simp_all
  have "\<not> int_isspace (last (str_int i))" using l str_int_no_special int_isspace_py by blast
  then have "\<not> int_isspace (hd (rev (str_int i)))" by (simp add: hd_rev)
  then have "dropWhile int_isspace (rev (str_int i)) = rev (str_int i)"
    by (cases "rev (str_int i)") simp_all
  then show ?thesis by (simp add: int_strip_def d)
qed

lemma py_int_str_int: "py_int (str_int i) = Some i"
proof (cases "i < 0")
  case True
  then show ?thesis
    by (simp add: py_int_def int_strip_str_int) (simp add: str_int_def py_nat_str_nat)
next
  case False
  obtain c cs where s: "str_nat (nat i) = c # cs" by (cases "str_nat (nat i)") auto
  have "is_digit c" using str_nat_digits [of "nat i"] s by auto
  then have "c \<noteq> CHR ''-''" "c \<noteq> CHR ''+''" using digit_not_special by auto
  moreover have "py_nat (c # cs) = Some (nat i)" using py_nat_str_nat [of "nat i"] s by simp
  ultimately show ?thesis using False s
    by (simp add: py_int_def int_strip_str_int) (simp add: str_int_def)
qed

lemma readlines_append:
  "LF \<notin> set l \<Longrightarrow> readlines (l @ LF # rest) = (l @ [LF]) # readlines rest"
  by (induction l) auto

lemma str_int_chars:
  assumes "c \<in> set (str_int i)"
  shows "\<not> py_isspace c" "c \<noteq> CR" "c \<noteq> LF" "c \<noteq> COLON" "c \<noteq> BAR"
  using assms str_int_no_special by blast+

lemma save_index_Cons: "save_index (e # idx) = index_line e @ save_index idx"
  by (cases e) (simp add: save_index_def index_line_def)

lemma save_index_Nil [simp]: "save_index [] = []"
  by (simp add: save_index_def)

lemma CR_notin_index_line: "key_ok (fst e) \<Longrightarrow> CR \<notin> set (index_line e)"
  using str_int_chars(2) [of CR "snd e"] by (auto simp: index_line_def key_ok_def)

lemma CR_notin_save_index: "\<forall>e\<in>set idx. key_ok (fst e) \<Longrightarrow> CR \<notin> set (save_index idx)"
proof (induction idx)
  case Nil then show ?case by simp
next
  case (Cons e idx)
  then show ?case using CR_notin_index_line [of e] by (simp add: save_index_Cons)
qed

lemma LF_notin_index_body: "key_ok k \<Longrightarrow> LF \<notin> set (k @ [COLON] @ str_int p)"
  using str_int_chars(3) [of LF p] by (auto simp: key_ok_def)

lemma readlines_save_index:
  "\<forall>e\<in>set idx. key_ok (fst e) \<Longrightarrow> readlines (save_index idx) = map index_line idx"
proof (induction idx)
  case Nil then show ?case by simp
next
  case (Cons e idx)
  have "LF \<notin> set (fst e @ [COLON] @ str_int (snd e))"
    using Cons.prems by (simp only: LF_notin_index_body list.set_intros(1) not_False_eq_True)
  then have "readlines ((fst e @ [COLON] @ str_int (snd e)) @ LF # save_index idx)
             = ((fst e @ [COLON] @ str_int (snd e)) @ [LF]) # readlines (save_index idx)"
    by (rule readlines_append)
  moreover have "readlines (save_index idx) = map index_line idx" using Cons by simp
  ultimately show ?case by (simp add: save_index_Cons index_line_def)
qed

lemma lstrip_key_ok: "key_ok k \<Longrightarrow> lstrip (k @ COLON # t) = k @ COLON # t"
proof (cases k)
  case Nil then show ?thesis by (simp add: lstrip_def)
next
  case (Cons c cs)
  assume "key_ok k"
  then have "lstrip k = k" by (simp add: key_ok_def)
  then have "\<not> py_isspace (hd k)" using lstrip_hd [of k] Cons by auto
  then show ?thesis using Cons by (simp add: lstrip_def)
qed

lemma strip_index_line:
  assumes "key_ok k"
  shows "strip (index_line (k, p)) = k @ COLON # str_int p"
proof -
  let ?s = "k @ COLON # str_int p"
  have l: "lstrip (?s @ [LF]) = ?s @ [LF]"
    using lstrip_key_ok [OF assms, of "str_int p @ [LF]"] by simp
  have "last ?s \<in> set (str_int p)" by simp
  then have "\<not> py_isspace (last ?s)" by (rule str_int_chars(1))
  then have "rstrip ?s = ?s" by (intro rstrip_id) blast
  then have "rstrip (?s @ [LF]) = ?s" using rstrip_snoc [of ?s LF] by (simp only: not_space_chars if_True)
  then show ?thesis using l by (simp add: strip_def index_line_def)
qed

lemma parse_index_line:
  assumes "key_ok k"
  shows "parse_index_lines (index_line (k, p) # ls) =
           (case parse_index_lines ls of Inl e \<Rightarrow> Inl e | Inr index \<Rightarrow> Inr ((k, p) # index))"
proof -
  have c: "COLON \<in> set (index_line (k, p))" by (simp add: index_line_def)
  have "COLON \<notin> set k" using assms by (simp add: key_ok_def)
  then have "split_max COLON (Suc 0) (k @ COLON # str_int p) = [k, str_int p]"
    by (simp add: split_max_append)
  then show ?thesis using c by (simp add: strip_index_line [OF assms] py_int_str_int)
qed

lemma parse_save_index:
  "\<forall>e\<in>set idx. key_ok (fst e) \<Longrightarrow> parse_index_lines (map index_line idx) = Inr idx"
proof (induction idx)
  case Nil then show ?case by simp
next
  case (Cons e idx)
  then have "key_ok (fst e)" and r: "parse_index_lines (map index_line idx) = Inr idx" by simp_all
  then show ?case using parse_index_line [of "fst e" "snd e" "map index_line idx"] by simp
qed

lemma load_save_index:
  assumes "\<forall>e\<in>set idx. key_ok (fst e)"
  shows "load_index (save_index idx) = Inr (sort_key fst idx)"
proof -
  have "universal_newlines (save_index idx) = save_index idx"
    using CR_notin_save_index [OF assms] by (rule universal_newlines_id)
  then show ?thesis
    by (simp add: load_index_def readlines_save_index [OF assms] parse_save_index [OF assms])
qed

lemma first_match_insort:
  "first_match (insort_key fst (k, p) xs) key = first_match ((k, p) # xs) key"
proof (induction xs)
  case Nil then show ?case by simp
next
  case (Cons x xs)
  obtain a b where x: "x = (a, b)" by (cases x)
  show ?case
  proof (cases "k \<le> a")
    case True then show ?thesis using x by simp
  next
    case False
    then have "k \<noteq> a" by auto
    then show ?thesis using False x Cons by auto
  qed
qed

lemma first_match_sort: "first_match (sort_key fst xs) key = first_match xs key"
proof (induction xs)
  case Nil then show ?case by simp
next
  case (Cons e xs)
  then show ?case by (cases e) (simp add: first_match_insort)
qed

lemma first_match_append:
  "first_match (xs @ ys) key =
     (case first_match xs key of Some p \<Rightarrow> Some p | None \<Rightarrow> first_match ys key)"
  by (induction xs) auto

lemma first_match_None_iff: "first_match xs key = None \<longleftrightarrow> key \<notin> set (map fst xs)"
proof (induction xs)
  case Nil then show ?case by simp
next
  case (Cons x xs)
  then show ?case by (cases x) auto
qed

lemma first_match_Some_mem: "first_match xs key = Some p \<Longrightarrow> (key, p) \<in> set xs"
  by (induction xs) (auto split: if_splits)

lemma first_match_enum_fst:
  "first_match_enum xs key i = Some (j, p) \<Longrightarrow>
     i \<le> j \<and> j - i < length xs \<and> xs ! (j - i) = (key, p) \<and> first_match xs key = Some p"
proof (induction xs arbitrary: i)
  case Nil then show ?case by simp
next
  case (Cons e xs)
  obtain v q where e: "e = (v, q)" by (cases e)
  show ?case
  proof (cases "v = key")
    case True
    then show ?thesis using Cons.prems e by simp
  next
    case False
    then have "first_match_enum xs key (Suc i) = Some (j, p)" using Cons.prems e by simp
    from Cons.IH [OF this]
    have h: "Suc i \<le> j" "j - Suc i < length xs" "xs ! (j - Suc i) = (key, p)"
            "first_match xs key = Some p" by simp_all
    have "j - i = Suc (j - Suc i)" using h(1) by arith
    then show ?thesis using h False e by simp
  qed
qed

lemma first_match_enum_None:
  "first_match_enum xs key i = None \<longleftrightarrow> first_match xs key = None"
  by (induction xs arbitrary: i) auto

lemma readlines_lines:
  "l \<in> set (readlines s) \<Longrightarrow> l \<noteq> [] \<and> LF \<notin> set (butlast l) \<and> set l \<subseteq> set s"
proof (induction s arbitrary: l)
  case Nil then show ?case by simp
next
  case (Cons c cs)
  show ?case
  proof (cases "c = LF")
    case True
    then show ?thesis using Cons by auto
  next
    case False
    show ?thesis
    proof (cases "readlines cs")
      case Nil
      then show ?thesis using Cons.prems False by simp
    next
      case (Cons l' ls)
      then have l': "l' \<noteq> [] \<and> LF \<notin> set (butlast l') \<and> set l' \<subseteq> set cs"
        using Cons.IH [of l'] by simp
      have "l = c # l' \<or> l \<in> set ls" using Cons.prems False Cons by simp
      then show ?thesis
      proof
        assume "l = c # l'"
        then show ?thesis using l' False by auto
      next
        assume "l \<in> set ls"
        then have "l \<in> set (readlines cs)" using Cons by simp
        from Cons.IH [OF this] show ?thesis by auto
      qed
    qed
  qed
qed

lemma rstrip_prefix: "\<exists>w. s = rstrip s @ w \<and> (\<forall>c\<in>set w. py_isspace c)"
proof (induction s rule: rev_induct)
  case Nil then show ?case by simp
next
  case (snoc x xs)
  then obtain w where w: "xs = rstrip xs @ w" "\<forall>c\<in>set w. py_isspace c" by blast
  show ?case
  proof (cases "py_isspace x")
    case True
    have "xs @ [x] = rstrip xs @ (w @ [x])" using w(1) by simp
    then show ?thesis using w(2) True by (metis rstrip_snoc set_ConsD set_append Un_iff empty_iff empty_set)
  next
    case False
    then show ?thesis by (simp add: rstrip_snoc)
  qed
qed

lemma lstrip_suffix: "\<exists>w. s = w @ lstrip s \<and> (\<forall>c\<in>set w. py_isspace c)"
  unfolding lstrip_def
  by (metis takeWhile_dropWhile_id set_takeWhileD)

lemma lstrip_rstrip: "lstrip (rstrip (lstrip s)) = rstrip (lstrip s)"
proof (cases "rstrip (lstrip s) = []")
  case True then show ?thesis by (simp add: lstrip_def)
next
  case False
  obtain w where w: "lstrip s = rstrip (lstrip s) @ w" using rstrip_prefix by blast
  then have "hd (lstrip s) = hd (rstrip (lstrip s))" using False by (metis hd_append2)
  moreover have "lstrip s \<noteq> []" using False by auto
  ultimately have "\<not> py_isspace (hd (rstrip (lstrip s)))" using lstrip_hd [of s] by auto
  then show ?thesis by (intro lstrip_id) simp
qed

lemma lstrip_strip: "lstrip (strip s) = strip s"
  by (simp add: strip_def lstrip_rstrip)

lemma set_lstrip: "set (lstrip s) \<subseteq> set s"
  unfolding lstrip_def by (auto dest: set_dropWhileD)

lemma set_strip: "set (strip s) \<subseteq> set s"
  unfolding strip_def using set_rstrip set_lstrip by blast

lemma LF_notin_rstrip: "LF \<notin> set (butlast s) \<Longrightarrow> LF \<notin> set (rstrip s)"
proof (cases s rule: rev_cases)
  case Nil then show ?thesis by simp
next
  case (snoc xs x)
  assume "LF \<notin> set (butlast s)"
  then have xs: "LF \<notin> set xs" using snoc by simp
  show ?thesis
  proof (cases "py_isspace x")
    case True
    then have "rstrip s = rstrip xs" using snoc by (simp add: rstrip_snoc)
    then show ?thesis using xs set_rstrip [of xs] by auto
  next
    case False
    then have "x \<noteq> LF" by auto
    then show ?thesis using False xs snoc by (simp add: rstrip_snoc)
  qed
qed

lemma butlast_lstrip: "set (butlast (lstrip s)) \<subseteq> set (butlast s)"
proof -
  obtain w where w: "s = w @ lstrip s" using lstrip_suffix by blast
  show ?thesis
  proof (cases "lstrip s = []")
    case True then show ?thesis by simp
  next
    case False
    then have "butlast s = w @ butlast (lstrip s)" using w by (metis butlast_append)
    then show ?thesis by auto
  qed
qed

lemma LF_notin_strip: "LF \<notin> set (butlast s) \<Longrightarrow> LF \<notin> set (strip s)"
  unfolding strip_def using butlast_lstrip [of s] by (intro LF_notin_rstrip) auto

lemma split_max_one:
  "split_max sep (Suc 0) t = [a, b] \<Longrightarrow> t = a @ sep # b \<and> sep \<notin> set a"
proof (induction t arbitrary: a)
  case Nil then show ?case by simp
next
  case (Cons c cs)
  show ?case
  proof (cases "c = sep")
    case True
    then show ?thesis using Cons.prems by simp
  next
    case False
    then obtain f where f: "split_max sep (Suc 0) cs = [f, b]" "a = c # f"
      using Cons.prems by (auto split: list.splits)
    from Cons.IH [OF f(1)] show ?thesis using f(2) False by auto
  qed
qed

lemma lstrip_prefix_ok:
  assumes "lstrip t = t" and "t = a @ b"
  shows "lstrip a = a"
proof (cases a)
  case Nil then show ?thesis by (simp add: lstrip_def)
next
  case (Cons c cs)
  then have "hd t = c" "t \<noteq> []" using assms(2) by simp_all
  then have "\<not> py_isspace c" using lstrip_hd [of t] assms(1) by auto
  then show ?thesis using Cons by (simp add: lstrip_def)
qed

lemma parse_index_lines_keys:
  assumes "parse_index_lines ls = Inr idx"
      and "\<forall>l\<in>set ls. LF \<notin> set (butlast l) \<and> CR \<notin> set l"
  shows "\<forall>e\<in>set idx. key_ok (fst e)"
  using assms
proof (induction ls arbitrary: idx)
  case Nil then show ?case by simp
next
  case (Cons line ls)
  show ?case
  proof (cases "COLON \<in> set line")
    case False
    then show ?thesis using Cons by simp
  next
    case True
    from Cons.prems(1) True obtain key pos_str p index where
      s: "split_max COLON (Suc 0) (strip line) = [key, pos_str]"
      and r: "parse_index_lines ls = Inr index" and i: "idx = (key, p) # index"
      by (auto split: list.splits option.splits sum.splits)
    have t: "strip line = key @ COLON # pos_str" "COLON \<notin> set key"
      using split_max_one [OF s] by simp_all
    have "LF \<notin> set (strip line)" using Cons.prems(2) by (intro LF_notin_strip) simp
    moreover have "CR \<notin> set (strip line)" using Cons.prems(2) set_strip [of line] by auto
    moreover have "lstrip key = key" using lstrip_strip [of line] t(1) by (rule lstrip_prefix_ok)
    ultimately have "key_ok key" using t by (auto simp: key_ok_def)
    moreover have "\<forall>e\<in>set index. key_ok (fst e)" using Cons.IH [OF r] Cons.prems(2) by simp
    ultimately show ?thesis using i by simp
  qed
qed

lemma load_index_keys:
  assumes "load_index f = Inr idx"
  shows "\<forall>e\<in>set idx. key_ok (fst e)"
proof -
  from assms obtain raw where raw: "parse_index_lines (readlines (universal_newlines f)) = Inr raw"
    and idx: "idx = sort_key fst raw"
    by (auto simp: load_index_def split: sum.splits)
  have "\<forall>l\<in>set (readlines (universal_newlines f)). LF \<notin> set (butlast l) \<and> CR \<notin> set l"
    using readlines_lines universal_newlines_no_CR by blast
  from parse_index_lines_keys [OF raw this] show ?thesis using idx by simp
qed

lemma load_index_sorted: "load_index f = Inr idx \<Longrightarrow> sorted (map fst idx)"
  by (auto simp: load_index_def split: sum.splits)

lemma load_save_loaded:
  assumes "load_index f = Inr idx" and "key_ok k"
  shows "load_index (save_index (sort_key fst (idx @ [(k, p)]))) = Inr (sort_key fst (idx @ [(k, p)]))"
proof -
  have "\<forall>e\<in>set (sort_key fst (idx @ [(k, p)])). key_ok (fst e)"
    using load_index_keys [OF assms(1)] assms(2) by auto
  from load_save_index [OF this] show ?thesis by (simp add: sort_key_id_if_sorted)
qed

section \<open>Facts about the record store\<close>

lemma length_ljust: "length (ljust n s) = max n (length s)"
  by (simp add: ljust_def)

lemma ljust_long: "n \<le> length s \<Longrightarrow> ljust n s = s"
  by (simp add: ljust_def)

lemma length_format_record: "length (format_record data) = max RECORD_SIZE (length data) + 1"
  by (simp add: format_record_def length_ljust)

lemma load_index_empty: "load_index [] = Inr []"
  by (simp add: load_index_def)


lemma length_format_record_ge: "RECORD_SIZE_WITH_NL \<le> length (format_record d)"
  by (simp add: length_format_record RECORD_SIZE_def RECORD_SIZE_WITH_NL_def)

lemma length_format_record_fit:
  "length d \<le> RECORD_SIZE \<Longrightarrow> length (format_record d) = RECORD_SIZE_WITH_NL"
  by (simp add: length_format_record RECORD_SIZE_def RECORD_SIZE_WITH_NL_def)

lemma format_record_not_Nil [simp]: "format_record d \<noteq> []"
  by (simp add: format_record_def)

lemma drop_write_at:
  "data \<noteq> [] \<Longrightarrow> \<exists>rest. drop off (write_at f off data) = data @ rest"
  by (simp add: write_at_def Let_def)

lemma write_at_tail:
  assumes "off \<le> length f" and "length f < off + length data"
  shows "write_at f off data = take off f @ data"
  using assms by (auto simp: write_at_def Let_def)

lemma length_write_at:
  "data \<noteq> [] \<Longrightarrow> length (write_at f off data) = max (length f) (off + length data)"
  by (auto simp: write_at_def Let_def)

lemma read_formatted:
  assumes "length d \<le> RECORD_SIZE" and "CR \<notin> set d"
  shows "rstrip (take RECORD_SIZE (universal_newlines (format_record d @ rest))) = rstrip d"
proof -
  let ?pad = "replicate (RECORD_SIZE - length d) SP"
  have "CR \<notin> set (d @ ?pad)" using assms(2) by auto
  then have "universal_newlines ((d @ ?pad) @ (LF # rest)) = (d @ ?pad) @ universal_newlines (LF # rest)"
    by (rule universal_newlines_append)
  moreover have "length (d @ ?pad) = RECORD_SIZE" using assms(1) by simp
  ultimately have "take RECORD_SIZE (universal_newlines (format_record d @ rest)) = d @ ?pad"
    by (simp add: format_record_def ljust_def)
  then show ?thesis by (simp add: rstrip_append_spaces)
qed

lemma read_after_write:
  assumes "0 \<le> p" and "length d \<le> RECORD_SIZE" and "CR \<notin> set d"
  shows "read_record (write_at f (nat p * RECORD_SIZE_WITH_NL) (format_record d)) p = Inr (rstrip d)"
proof -
  obtain rest where
    "drop (nat p * RECORD_SIZE_WITH_NL) (write_at f (nat p * RECORD_SIZE_WITH_NL) (format_record d))
       = format_record d @ rest"
    using drop_write_at [of "format_record d"] by auto
  then show ?thesis using assms by (simp add: read_record_def read_formatted)
qed

lemma write_record_ok:
  "0 \<le> p \<Longrightarrow> write_record f p r = Inr (write_at f (nat p * RECORD_SIZE_WITH_NL) r)"
  by (simp add: write_record_def)

lemma find_free_position_nonneg [simp]: "0 \<le> find_free_position f"
  by (simp add: find_free_position_def)

lemma strip_fixed: "strip s = s \<Longrightarrow> rstrip s = s \<and> lstrip s = s"
  by (metis strip_def rstrip_idem lstrip_rstrip)

lemma rstrip_bar_field:
  assumes "strip s = s"
  shows "rstrip (x @ BAR # s) = x @ BAR # s"
proof (cases s)
  case Nil
  then show ?thesis using rstrip_snoc [of x BAR] by simp
next
  case (Cons c cs)
  have "rstrip s = s" using assms strip_fixed by blast
  then have "\<not> py_isspace (last s)" using rstrip_last [of s] Cons by auto
  then show ?thesis using Cons by (intro rstrip_id) simp
qed

lemma split_max_fields5:
  assumes "BAR \<notin> set a" "BAR \<notin> set b" "BAR \<notin> set c" "BAR \<notin> set d"
  shows "split_max BAR 4 (a @ BAR # b @ BAR # c @ BAR # d @ BAR # e) = [a, b, c, d, e]"
proof -
  have "split_max BAR (Suc (Suc (Suc (Suc 0)))) (a @ BAR # b @ BAR # c @ BAR # d @ BAR # e)
        = [a, b, c, d, e]"
    using assms by (simp add: split_max_append)
  then show ?thesis by (simp add: eval_nat_numeral)
qed

lemma car_data_split:
  "car_text_ok car \<Longrightarrow>
     split_max BAR 4 (car_data car) = [vin car, model car, price car, date_start car, status car]"
  using split_max_fields5 [of "vin car" "model car" "price car" "date_start car" "status car"]
  by (simp add: car_text_ok_def car_data_def)

lemma car_data_rstrip: "car_text_ok car \<Longrightarrow> rstrip (car_data car) = car_data car"
  using rstrip_bar_field [of "status car"
      "vin car @ BAR # model car @ BAR # price car @ BAR # date_start car"]
  by (simp add: car_text_ok_def car_data_def)

lemma car_data_not_Nil [simp]: "car_data car \<noteq> []"
  by (simp add: car_data_def)

lemma decode_car_data:
  "car_text_ok car \<Longrightarrow> decode_car (split_max BAR 4 (car_data car)) = car"
  by (simp add: car_data_split decode_car_def) (simp add: car_text_ok_def)

lemma data_file_Nil [simp]: "data_file [] = []"
  by (simp add: data_file_def)

lemma data_file_append: "data_file (xs @ ys) = data_file xs @ data_file ys"
  by (simp add: data_file_def)

lemma data_file_Cons: "data_file (d # ds) = format_record d @ data_file ds"
  by (simp add: data_file_def)

lemma length_data_file:
  "\<forall>d\<in>set ds. payload_ok d \<Longrightarrow> length (data_file ds) = length ds * RECORD_SIZE_WITH_NL"
  by (induction ds) (simp_all add: data_file_Cons payload_ok_def length_format_record_fit)

lemma free_position_data_file:
  assumes "\<forall>d\<in>set ds. payload_ok d"
  shows "find_free_position (data_file ds) = int (length ds)"
  using length_data_file [OF assms]
  by (simp add: find_free_position_def RECORD_SIZE_WITH_NL_def)

lemma write_at_end: "data \<noteq> [] \<Longrightarrow> write_at f (length f) data = f @ data"
  by (simp add: write_at_def)

lemma write_at_middle:
  assumes "data \<noteq> []" and "length old = length data"
  shows "write_at (pre @ old @ post) (length pre) data = pre @ data @ post"
  using assms by (simp add: write_at_def)

lemma append_data_file:
  assumes "\<forall>d\<in>set ds. payload_ok d"
  shows "write_at (data_file ds) (nat (find_free_position (data_file ds)) * RECORD_SIZE_WITH_NL)
           (format_record d) = data_file (ds @ [d])"
proof -
  have "nat (find_free_position (data_file ds)) * RECORD_SIZE_WITH_NL = length (data_file ds)"
    using free_position_data_file [OF assms] length_data_file [OF assms] by simp
  then show ?thesis
    by (simp add: write_at_end data_file_append data_file_Cons)
qed

lemma data_file_split:
  assumes "i < length ds"
  shows "data_file ds = data_file (take i ds) @ format_record (ds ! i) @ data_file (drop (Suc i) ds)"
proof -
  have "ds = take i ds @ (ds ! i) # drop (Suc i) ds" using assms by (rule id_take_nth_drop)
  then have "data_file ds = data_file (take i ds @ (ds ! i) # drop (Suc i) ds)" by simp
  then show ?thesis by (simp only: data_file_append data_file_Cons)
qed

lemma length_data_file_take:
  assumes "\<forall>d\<in>set ds. payload_ok d" and "i \<le> length ds"
  shows "length (data_file (take i ds)) = i * RECORD_SIZE_WITH_NL"
proof -
  have "\<forall>d\<in>set (take i ds). payload_ok d" using assms(1) by (meson in_set_takeD)
  from length_data_file [OF this] show ?thesis using assms(2) by simp
qed

lemma rewrite_data_file:
  assumes "\<forall>d\<in>set ds. payload_ok d" and "i < length ds" and "payload_ok d"
  shows "write_at (data_file ds) (i * RECORD_SIZE_WITH_NL) (format_record d)
           = data_file (ds[i := d])"
proof -
  let ?pre = "data_file (take i ds)" and ?post = "data_file (drop (Suc i) ds)"
  have l: "length ?pre = i * RECORD_SIZE_WITH_NL"
    using assms(1,2) by (intro length_data_file_take) simp_all
  have "payload_ok (ds ! i)" using assms(1,2) by simp
  then have e: "length (format_record (ds ! i)) = length (format_record d)"
    using assms(3) by (simp add: payload_ok_def length_format_record_fit)
  have "write_at (?pre @ format_record (ds ! i) @ ?post) (length ?pre) (format_record d)
          = ?pre @ format_record d @ ?post"
    using e by (intro write_at_middle) simp_all
  then have "write_at (data_file ds) (i * RECORD_SIZE_WITH_NL) (format_record d)
          = ?pre @ format_record d @ ?post"
    using data_file_split [OF assms(2)] l by simp
  moreover have "data_file (ds[i := d]) = ?pre @ format_record d @ ?post"
    using data_file_split [of i "ds[i := d]"] assms(2) by simp
  ultimately show ?thesis by simp
qed

lemma read_data_file:
  assumes "\<forall>d\<in>set ds. payload_ok d" and "i < length ds"
  shows "read_record (data_file ds) (int i) = Inr (rstrip (ds ! i))"
proof -
  let ?pre = "data_file (take i ds)" and ?post = "data_file (drop (Suc i) ds)"
  have l: "length ?pre = i * RECORD_SIZE_WITH_NL"
    using assms(1,2) by (intro length_data_file_take) simp_all
  have "drop (i * RECORD_SIZE_WITH_NL) (?pre @ format_record (ds ! i) @ ?post)
          = format_record (ds ! i) @ ?post"
    using l by simp
  then have d: "drop (i * RECORD_SIZE_WITH_NL) (data_file ds) = format_record (ds ! i) @ ?post"
    using data_file_split [OF assms(2)] by simp
  have "payload_ok (ds ! i)" using assms(1,2) by simp
  then have "rstrip (take RECORD_SIZE (universal_newlines (format_record (ds ! i) @ ?post)))
          = rstrip (ds ! i)"
    by (intro read_formatted) (simp_all add: payload_ok_def)
  then show ?thesis using d by (simp add: read_record_def)
qed

lemma read_data_file_past:
  assumes "\<forall>d\<in>set ds. payload_ok d" and "length ds \<le> i"
  shows "read_record (data_file ds) (int i) = Inr []"
proof -
  have "length (data_file ds) \<le> i * RECORD_SIZE_WITH_NL"
    using length_data_file [OF assms(1)] assms(2) by simp
  then show ?thesis by (simp add: read_record_def)
qed

section \<open>Facts about the entity repository\<close>

lemma add_car_result:
  assumes "load_index (cars_index_file st) = Inr index"
  shows "add_car car st =
           (Inr car,
            st\<lparr>cars_file := write_at (cars_file st)
                   (nat (find_free_position (cars_file st)) * RECORD_SIZE_WITH_NL)
                   (format_record (car_data car)),
               cars_index_file := save_index (sort_key fst
                   (index @ [(vin car, find_free_position (cars_file st))]))\<rparr>)"
  using assms by (simp add: add_car_def Let_def write_record_ok)

lemma first_match_fresh:
  "first_match index k = None \<Longrightarrow> first_match (sort_key fst (index @ [(k, p)])) k = Some p"
  by (simp add: first_match_sort first_match_append)

lemma get_car_by_vin_at:
  assumes "load_index (cars_index_file st) = Inr index"
      and "first_match index v = Some p"
      and "read_record (cars_file st) p = Inr (car_data car)"
      and "car_text_ok car"
  shows "get_car_by_vin v st = Inr car"
  using assms decode_car_data [of car] car_data_split [of car]
  by (simp add: get_car_by_vin_def find_car_by_vin_def Let_def)

lemma key_ok_car_1: "key_ok (vin car_1)"
  by (simp add: car_1_def key_ok_def lstrip_def py_isspace_def)

lemma car_text_ok_car_1: "car_text_ok car_1"
  by (simp add: car_1_def car_text_ok_def car_data_def strip_def lstrip_def rstrip_def
      py_isspace_def RECORD_SIZE_def)

lemma length_take_le: "length (take n xs) \<le> n"
  by simp

lemma read_record_props:
  assumes "read_record f p = Inr r"
  shows "0 \<le> p" and "CR \<notin> set r" and "length r \<le> RECORD_SIZE" and "rstrip r = r"
proof -
  show p: "0 \<le> p" using assms by (auto simp: read_record_def split: if_splits)
  let ?t = "take RECORD_SIZE (universal_newlines (drop (nat p * RECORD_SIZE_WITH_NL) f))"
  have r: "r = rstrip ?t" using assms p by (simp add: read_record_def)
  have "CR \<notin> set ?t" using universal_newlines_no_CR by (metis in_set_takeD)
  then show "CR \<notin> set r" using set_rstrip [of ?t] r by auto
  have "length ?t \<le> RECORD_SIZE" by simp
  then show "length r \<le> RECORD_SIZE" using length_rstrip [of ?t] r by simp
  show "rstrip r = r" using r by simp
qed

lemma split_max_Suc_inv:
  "split_max sep (Suc n) t = a # b # rest \<Longrightarrow>
     sep \<notin> set a \<and> (\<exists>t'. t = a @ sep # t' \<and> split_max sep n t' = b # rest)"
proof (induction t arbitrary: a)
  case Nil then show ?case by simp
next
  case (Cons c cs)
  show ?case
  proof (cases "c = sep")
    case True
    then show ?thesis using Cons.prems by auto
  next
    case False
    then obtain f where f: "split_max sep (Suc n) cs = f # b # rest" "a = c # f"
      using Cons.prems by (auto split: list.splits)
    from Cons.IH [OF f(1)] show ?thesis using f(2) False by auto
  qed
qed

lemma split5_inv:
  assumes "split_max BAR 4 r = [a, b, c, d, e]"
  shows "r = a @ BAR # b @ BAR # c @ BAR # d @ BAR # e"
    and "BAR \<notin> set a" and "BAR \<notin> set b" and "BAR \<notin> set c" and "BAR \<notin> set d"
proof -
  have 4: "split_max BAR (Suc (Suc (Suc (Suc 0)))) r = [a, b, c, d, e]"
    using assms by (simp add: eval_nat_numeral)
  from split_max_Suc_inv [OF 4] obtain t1 where
    t1: "BAR \<notin> set a" "r = a @ BAR # t1" "split_max BAR (Suc (Suc (Suc 0))) t1 = [b, c, d, e]"
    by blast
  from split_max_Suc_inv [OF t1(3)] obtain t2 where
    t2: "BAR \<notin> set b" "t1 = b @ BAR # t2" "split_max BAR (Suc (Suc 0)) t2 = [c, d, e]"
    by blast
  from split_max_Suc_inv [OF t2(3)] obtain t3 where
    t3: "BAR \<notin> set c" "t2 = c @ BAR # t3" "split_max BAR (Suc 0) t3 = [d, e]"
    by blast
  from split_max_Suc_inv [OF t3(3)] obtain t4 where
    t4: "BAR \<notin> set d" "t3 = d @ BAR # t4" "split_max BAR 0 t4 = [e]"
    by blast
  show "BAR \<notin> set a" "BAR \<notin> set b" "BAR \<notin> set c" "BAR \<notin> set d"
    using t1 t2 t3 t4 by simp_all
  show "r = a @ BAR # b @ BAR # c @ BAR # d @ BAR # e"
    using t1 t2 t3 t4 by simp
qed

lemma length5_obtain:
  assumes "length xs = 5"
  obtains a b c d e where "xs = [a, b, c, d, e]"
proof -
  from assms obtain a r1 where "xs = a # r1" "length r1 = 4" by (cases xs) auto
  moreover then obtain b r2 where "r1 = b # r2" "length r2 = 3" by (cases r1) auto
  moreover then obtain c r3 where "r2 = c # r3" "length r3 = 2" by (cases r2) auto
  moreover then obtain d r4 where "r3 = d # r4" "length r4 = 1" by (cases r3) auto
  moreover then obtain e where "r4 = [e]" by (cases r4) auto
  ultimately show ?thesis using that by simp
qed

lemma join5: "join [BAR] [a, b, c, d, e] = a @ BAR # b @ BAR # c @ BAR # d @ BAR # e"
  by simp

lemma update_car_status_missing:
  assumes "load_index (cars_index_file st) = Inr cars_index"
      and "first_match cars_index v = None"
  shows "update_car_status v s st = (Inr (), st)"
  using assms by (simp add: update_car_status_def)

lemma update_car_status_found:
  assumes "load_index (cars_index_file st) = Inr cars_index"
      and "first_match cars_index v = Some pos"
      and "read_record (cars_file st) pos = Inr r"
      and "split_max BAR 4 r = [a, b, c, d, e]"
  shows "update_car_status v s st =
           (Inr (), st\<lparr>cars_file := write_at (cars_file st) (nat pos * RECORD_SIZE_WITH_NL)
                           (format_record (join [BAR] [a, b, c, d, s]))\<rparr>)"
proof -
  have "0 \<le> pos" using assms(3) by (rule read_record_props)
  then show ?thesis using assms
    by (simp add: update_car_status_def Let_def write_record_ok del: join.simps)
qed

lemma get_car_by_vin_missing:
  assumes "load_index (cars_index_file st) = Inr cars_index"
      and "first_match cars_index v = None"
  shows "get_car_by_vin v st = Inl (CarNotFound v)"
  using assms by (simp add: get_car_by_vin_def find_car_by_vin_def)

lemma sell_car_unfold:
  assumes "load_index (sales_index_file st) = Inr sales_index"
  shows "sell_car sale st =
     (case update_car_status (car_vin sale) CarStatus_sold
             (st\<lparr>sales_file := write_at (sales_file st)
                     (nat (find_free_position (sales_file st)) * RECORD_SIZE_WITH_NL)
                     (format_record (sale_data sale)),
                 sales_index_file := save_index (sort_key fst
                     (sales_index @ [(sales_number sale, find_free_position (sales_file st))]))\<rparr>) of
        (Inl e, st3) \<Rightarrow> (Inl e, st3)
      | (Inr u, st3) \<Rightarrow> (get_car_by_vin (car_vin sale) st3, st3))"
  using assms by (simp add: sell_car_def Let_def write_record_ok)

lemma append_at_free_position:
  "write_at f (nat (find_free_position f) * RECORD_SIZE_WITH_NL) (format_record d)
     = take (nat (find_free_position f) * RECORD_SIZE_WITH_NL) f @ format_record d"
proof (rule write_at_tail)
  show "nat (find_free_position f) * RECORD_SIZE_WITH_NL \<le> length f"
    by (simp add: find_free_position_def)
  have "length f < (length f div RECORD_SIZE_WITH_NL) * RECORD_SIZE_WITH_NL + RECORD_SIZE_WITH_NL"
    by (metis RECORD_SIZE_WITH_NL_def add.commute dividend_less_div_times mult.commute
        zero_less_numeral)
  then show "length f < nat (find_free_position f) * RECORD_SIZE_WITH_NL + length (format_record d)"
    using length_format_record_ge [of d] by (simp add: find_free_position_def)
qed

lemma drop_append_at_free_position:
  "drop (nat (find_free_position f) * RECORD_SIZE_WITH_NL)
        (write_at f (nat (find_free_position f) * RECORD_SIZE_WITH_NL) (format_record d))
     = format_record d"
proof -
  have "nat (find_free_position f) * RECORD_SIZE_WITH_NL \<le> length f"
    by (simp add: find_free_position_def)
  then show ?thesis by (simp add: append_at_free_position)
qed

lemma rstrip_same_suffix:
  assumes "s \<noteq> []" and "rstrip (y @ s) = y @ s"
  shows "rstrip (x @ s) = x @ s"
proof -
  have "\<not> py_isspace (last (y @ s))" using rstrip_last [of "y @ s"] assms by auto
  then have "\<not> py_isspace (last (x @ s))" using assms(1) by simp
  then show ?thesis by (intro rstrip_id) simp
qed

lemma update_vin_found:
  assumes "load_index (cars_index_file st) = Inr cars_index"
      and "first_match_enum cars_index v 0 = Some (i, pos)"
      and "read_record (cars_file st) pos = Inr r"
      and "split_max BAR 4 r = [a, b, c, d, e]"
  shows "update_vin v new_vin st =
           (get_car_by_vin new_vin
              (st\<lparr>cars_file := write_at (cars_file st) (nat pos * RECORD_SIZE_WITH_NL)
                                 (format_record (join [BAR] [new_vin, b, c, d, e])),
                  cars_index_file := save_index (sort_key fst
                                 (cars_index[i := (new_vin, pos)]))\<rparr>),
            st\<lparr>cars_file := write_at (cars_file st) (nat pos * RECORD_SIZE_WITH_NL)
                               (format_record (join [BAR] [new_vin, b, c, d, e])),
                cars_index_file := save_index (sort_key fst
                               (cars_index[i := (new_vin, pos)]))\<rparr>)"
proof -
  have "0 \<le> pos" using assms(3) by (rule read_record_props)
  then show ?thesis using assms
    by (simp add: update_vin_def Let_def write_record_ok del: join.simps)
qed

lemma first_match_enum_exists:
  "first_match xs key = Some p \<Longrightarrow> \<exists>j. first_match_enum xs key i = Some (j, p)"
  by (induction xs arbitrary: i) (auto split: if_splits)

lemma key_ok_update:
  assumes "\<forall>e\<in>set idx. key_ok (fst e)" and "key_ok k"
  shows "\<forall>e\<in>set (sort_key fst (idx[i := (k, p)])). key_ok (fst e)"
proof -
  have "set (idx[i := (k, p)]) \<subseteq> insert (k, p) (set idx)" by (rule set_update_subset_insert)
  then show ?thesis using assms by auto
qed

lemma update_vin_files:
  assumes "load_index (cars_index_file st) = Inr cars_index"
      and "first_match_enum cars_index v 0 = Some (i, pos)"
      and "read_record (cars_file st) pos = Inr r"
      and "split_max BAR 4 r = [a, b, c, d, e]"
  shows "cars_file (snd (update_vin v new_vin st))
           = write_at (cars_file st) (nat pos * RECORD_SIZE_WITH_NL)
                               (format_record (join [BAR] [new_vin, b, c, d, e]))"
    and "cars_index_file (snd (update_vin v new_vin st))
           = save_index (sort_key fst (cars_index[i := (new_vin, pos)]))"
  unfolding update_vin_found [OF assms] by simp_all



lemma load_save_sorted:
  assumes "\<forall>e\<in>set idx. key_ok (fst e)"
  shows "load_index (save_index (sort_key fst idx)) = Inr (sort_key fst idx)"
proof -
  have k: "\<forall>e\<in>set (sort_key fst idx). key_ok (fst e)" using assms by simp
  have "sort_key fst (sort_key fst idx) = sort_key fst idx"
    by (rule sort_key_id_if_sorted) (rule sorted_sort_key)
  then show ?thesis using load_save_index [OF k] by (simp only:)
qed

lemma renamed_record:
  assumes "read_record f pos = Inr r"
      and "split_max BAR 4 r = [a, b, c, d, e]"
      and "CR \<notin> set new_vin" and "BAR \<notin> set new_vin"
  shows "CR \<notin> set (join [BAR] [new_vin, b, c, d, e])"
    and "rstrip (join [BAR] [new_vin, b, c, d, e]) = join [BAR] [new_vin, b, c, d, e]"
    and "split_max BAR 4 (join [BAR] [new_vin, b, c, d, e]) = [new_vin, b, c, d, e]"
proof -
  note rp = read_record_props [OF assms(1)]
  note sp = split5_inv [OF assms(2)]
  have "CR \<notin> set (a @ BAR # b @ BAR # c @ BAR # d @ BAR # e)" using rp(2) sp(1) by simp
  then show "CR \<notin> set (join [BAR] [new_vin, b, c, d, e])" using assms(3) by simp
  have "rstrip ((a @ BAR # b @ BAR # c @ BAR # d) @ BAR # e)
          = (a @ BAR # b @ BAR # c @ BAR # d) @ BAR # e"
    using rp(4) sp(1) by simp
  then have "rstrip ((new_vin @ BAR # b @ BAR # c @ BAR # d) @ BAR # e)
          = (new_vin @ BAR # b @ BAR # c @ BAR # d) @ BAR # e"
    using rstrip_same_suffix [of "BAR # e" "a @ BAR # b @ BAR # c @ BAR # d"
        "new_vin @ BAR # b @ BAR # c @ BAR # d"] by blast
  then show "rstrip (join [BAR] [new_vin, b, c, d, e]) = join [BAR] [new_vin, b, c, d, e]" by simp
  have "split_max BAR 4 (new_vin @ BAR # b @ BAR # c @ BAR # d @ BAR # e) = [new_vin, b, c, d, e]"
    using assms(4) sp(3,4,5) by (rule split_max_fields5)
  then show "split_max BAR 4 (join [BAR] [new_vin, b, c, d, e]) = [new_vin, b, c, d, e]" by simp
qed

lemma init_fs_simps [simp]:
  "models_file init_fs = []" "models_index_file init_fs = []" "cars_file init_fs = []"
  "cars_index_file init_fs = []" "sales_file init_fs = []" "sales_index_file init_fs = []"
  by (simp_all add: init_fs_def)

lemma find_free_position_Nil [simp]: "find_free_position [] = 0"
  by (simp add: find_free_position_def)

lemma write_at_Nil_0: "data \<noteq> [] \<Longrightarrow> write_at [] 0 data = data"
  by (simp add: write_at_def)

lemma store_1_files:
  "cars_file store_1 = format_record (car_data car_1)"
  "cars_index_file store_1 = save_index [(vin car_1, 0)]"
  "sales_file store_1 = []" "sales_index_file store_1 = []"
  "models_file store_1 = []" "models_index_file store_1 = []"
  unfolding store_1_def
  by (simp_all add: add_car_result [of init_fs "[]"] load_index_empty write_at_Nil_0)

lemma store_1_index: "load_index (cars_index_file store_1) = Inr [(vin car_1, 0)]"
  using load_save_index [of "[(vin car_1, 0)]"] key_ok_car_1 by (simp add: store_1_files)

lemma store_1_record: "read_record (cars_file store_1) 0 = Inr (car_data car_1)"
proof -
  have "length (car_data car_1) \<le> RECORD_SIZE" "CR \<notin> set (car_data car_1)"
    using car_text_ok_car_1 by (simp_all add: car_text_ok_def)
  then have "rstrip (take RECORD_SIZE (universal_newlines (format_record (car_data car_1) @ [])))
              = rstrip (car_data car_1)"
    by (rule read_formatted)
  then show ?thesis
    by (simp add: read_record_def store_1_files car_data_rstrip [OF car_text_ok_car_1])
qed

lemma free_position_after_append:
  assumes "length d \<le> RECORD_SIZE"
  shows "find_free_position (write_at f (nat (find_free_position f) * RECORD_SIZE_WITH_NL)
                               (format_record d)) = find_free_position f + 1"
proof -
  let ?q = "length f div RECORD_SIZE_WITH_NL"
  have "?q * RECORD_SIZE_WITH_NL \<le> length f" by simp
  then have "length (take (?q * RECORD_SIZE_WITH_NL) f) = ?q * RECORD_SIZE_WITH_NL"
    by (simp only: length_take min_absorb2)
  then have "length (take (?q * RECORD_SIZE_WITH_NL) f @ format_record d)
          = ?q * RECORD_SIZE_WITH_NL + RECORD_SIZE_WITH_NL"
    using length_format_record_fit [OF assms] by (simp only: length_append)
  then have "length (take (?q * RECORD_SIZE_WITH_NL) f @ format_record d) div RECORD_SIZE_WITH_NL
          = ?q + 1"
    by (simp add: RECORD_SIZE_WITH_NL_def)
  then show ?thesis
    using append_at_free_position [of f d] by (simp add: find_free_position_def)
qed

lemma take_all_append: "length xs = n \<Longrightarrow> take n (xs @ ys) = xs"
  by simp

lemma two_appends:
  assumes "length d1 \<le> RECORD_SIZE"
      and f1_def: "f1 = write_at f (nat (find_free_position f) * RECORD_SIZE_WITH_NL)
                          (format_record d1)"
  shows "write_at f1 (nat (find_free_position f1) * RECORD_SIZE_WITH_NL) (format_record d2)
           = take (nat (find_free_position f) * RECORD_SIZE_WITH_NL) f
               @ format_record d1 @ format_record d2"
proof -
  let ?o = "nat (find_free_position f) * RECORD_SIZE_WITH_NL"
  have f1: "f1 = take ?o f @ format_record d1"
    unfolding f1_def by (rule append_at_free_position)
  have le: "?o \<le> length f" by (simp add: find_free_position_def)
  have len: "length f1 = ?o + RECORD_SIZE_WITH_NL"
    using length_format_record_fit [OF assms(1)] le by (simp add: f1)
  have "find_free_position f1 = find_free_position f + 1"
    unfolding f1_def using assms(1) by (rule free_position_after_append)
  then have "nat (find_free_position f1) * RECORD_SIZE_WITH_NL = length f1"
    using len by (simp add: nat_add_distrib)
  then have "write_at f1 (nat (find_free_position f1) * RECORD_SIZE_WITH_NL) (format_record d2)
               = f1 @ format_record d2"
    using append_at_free_position [of f1 d2] by simp
  then show ?thesis by (simp add: f1)
qed

lemma read_first_of_two:
  assumes "length d1 \<le> RECORD_SIZE" and "CR \<notin> set d1"
  shows "read_record (take (nat (find_free_position f) * RECORD_SIZE_WITH_NL) f
                        @ format_record d1 @ rest) (find_free_position f) = Inr (rstrip d1)"
proof -
  have le: "nat (find_free_position f) * RECORD_SIZE_WITH_NL \<le> length f"
    by (simp add: find_free_position_def)
  then have "drop (nat (find_free_position f) * RECORD_SIZE_WITH_NL)
          (take (nat (find_free_position f) * RECORD_SIZE_WITH_NL) f @ format_record d1 @ rest)
        = format_record d1 @ rest" by simp
  moreover have "\<not> find_free_position f < 0" by (simp add: find_free_position_def)
  ultimately show ?thesis
    unfolding read_record_def using read_formatted [OF assms, of rest] by (simp only: if_False)
qed

lemma duplicate_adds:
  assumes "load_index (cars_index_file st) = Inr index"
      and "key_ok (vin car_a)" and "car_text_ok car_a"
      and "vin car_b = vin car_a"
  shows "load_index (cars_index_file (snd (add_car car_b (snd (add_car car_a st)))))
           = Inr (sort_key fst (sort_key fst (index @ [(vin car_a, find_free_position (cars_file st))])
                    @ [(vin car_a, find_free_position (cars_file st) + 1)]))"
    and "cars_file (snd (add_car car_b (snd (add_car car_a st))))
           = take (nat (find_free_position (cars_file st)) * RECORD_SIZE_WITH_NL) (cars_file st)
               @ format_record (car_data car_a) @ format_record (car_data car_b)"
proof -
  let ?p = "find_free_position (cars_file st)"
  let ?st1 = "snd (add_car car_a st)"
  let ?idx1 = "sort_key fst (index @ [(vin car_a, ?p)])"
  have len: "length (car_data car_a) \<le> RECORD_SIZE" using assms(3) by (simp add: car_text_ok_def)
  have f1: "cars_file ?st1 = write_at (cars_file st) (nat ?p * RECORD_SIZE_WITH_NL)
                               (format_record (car_data car_a))"
    and i1: "cars_index_file ?st1 = save_index ?idx1"
    by (simp_all add: add_car_result [OF assms(1)])
  have l1: "load_index (cars_index_file ?st1) = Inr ?idx1"
    unfolding i1 using assms(1,2) by (rule load_save_loaded)
  have p2: "find_free_position (cars_file ?st1) = ?p + 1"
    unfolding f1 using len by (rule free_position_after_append)
  have i2: "cars_index_file (snd (add_car car_b ?st1))
              = save_index (sort_key fst (?idx1 @ [(vin car_a, ?p + 1)]))"
    by (simp add: add_car_result [OF l1] p2 assms(4))
  show "load_index (cars_index_file (snd (add_car car_b ?st1)))
          = Inr (sort_key fst (?idx1 @ [(vin car_a, ?p + 1)]))"
    unfolding i2 using l1 assms(2) by (rule load_save_loaded)
  have "cars_file (snd (add_car car_b ?st1))
          = write_at (cars_file ?st1) (nat (find_free_position (cars_file ?st1)) * RECORD_SIZE_WITH_NL)
              (format_record (car_data car_b))"
    by (simp add: add_car_result [OF l1])
  also have "\<dots> = take (nat ?p * RECORD_SIZE_WITH_NL) (cars_file st)
               @ format_record (car_data car_a) @ format_record (car_data car_b)"
    using len f1 by (rule two_appends)
  finally show "cars_file (snd (add_car car_b ?st1))
           = take (nat ?p * RECORD_SIZE_WITH_NL) (cars_file st)
               @ format_record (car_data car_a) @ format_record (car_data car_b)" .
qed

lemma status_record:
  assumes "read_record f pos = Inr r"
      and "split_max BAR 4 r = [a, b, c, d, e]"
      and "strip s = s" and "CR \<notin> set s"
      and "length (join [BAR] [a, b, c, d, s]) \<le> RECORD_SIZE"
  shows "read_record (write_at f (nat pos * RECORD_SIZE_WITH_NL)
                        (format_record (join [BAR] [a, b, c, d, s]))) pos
           = Inr (join [BAR] [a, b, c, d, s])"
    and "split_max BAR 4 (join [BAR] [a, b, c, d, s]) = [a, b, c, d, s]"
proof -
  note rp = read_record_props [OF assms(1)]
  note sp = split5_inv [OF assms(2)]
  let ?new = "join [BAR] [a, b, c, d, s]"
  have "CR \<notin> set (a @ BAR # b @ BAR # c @ BAR # d @ BAR # e)" using rp(2) sp(1) by simp
  then have cr: "CR \<notin> set ?new" using assms(4) by simp
  have "rstrip ((a @ BAR # b @ BAR # c @ BAR # d) @ BAR # s) = (a @ BAR # b @ BAR # c @ BAR # d) @ BAR # s"
    using assms(3) by (rule rstrip_bar_field)
  then have rs: "rstrip ?new = ?new" by simp
  have "read_record (write_at f (nat pos * RECORD_SIZE_WITH_NL) (format_record ?new)) pos
          = Inr (rstrip ?new)"
    using rp(1) assms(5) cr by (rule read_after_write)
  then show "read_record (write_at f (nat pos * RECORD_SIZE_WITH_NL) (format_record ?new)) pos
          = Inr ?new" by (simp only: rs)
  have "split_max BAR 4 (a @ BAR # b @ BAR # c @ BAR # d @ BAR # s) = [a, b, c, d, s]"
    using sp(2,3,4,5) by (rule split_max_fields5)
  then show "split_max BAR 4 ?new = [a, b, c, d, s]" by simp
qed

lemma get_car_by_vin_fields:
  assumes "load_index (cars_index_file st) = Inr index"
      and "first_match index v = Some pos"
      and "read_record (cars_file st) pos = Inr r"
      and "split_max BAR 4 r = [a, b, c, d, e]"
  shows "get_car_by_vin v st = Inr (decode_car [a, b, c, d, e])"
proof -
  have "r \<noteq> []" using assms(4) by auto
  then show ?thesis using assms
    by (simp add: get_car_by_vin_def find_car_by_vin_def Let_def)
qed

lemma set_status:
  assumes "load_index (cars_index_file st) = Inr index"
      and "first_match index v = Some pos"
      and "read_record (cars_file st) pos = Inr r"
      and "split_max BAR 4 r = [a, b, c, d, e]"
      and "strip s = s" and "CR \<notin> set s"
      and "length (join [BAR] [a, b, c, d, s]) \<le> RECORD_SIZE"
  shows "update_car_status v s st =
           (Inr (), st\<lparr>cars_file := write_at (cars_file st) (nat pos * RECORD_SIZE_WITH_NL)
                           (format_record (join [BAR] [a, b, c, d, s]))\<rparr>)"
    and "get_car_by_vin v
           (st\<lparr>cars_file := write_at (cars_file st) (nat pos * RECORD_SIZE_WITH_NL)
                           (format_record (join [BAR] [a, b, c, d, s]))\<rparr>)
           = Inr (decode_car [a, b, c, d, s])"
proof -
  let ?new = "join [BAR] [a, b, c, d, s]"
  let ?st = "st\<lparr>cars_file := write_at (cars_file st) (nat pos * RECORD_SIZE_WITH_NL)
                           (format_record ?new)\<rparr>"
  show "update_car_status v s st = (Inr (), ?st)"
    using assms(1,2,3,4) by (rule update_car_status_found)
  note sr = status_record [OF assms(3,4,5,6,7)]
  have l: "load_index (cars_index_file ?st) = Inr index" using assms(1) by simp
  have rd: "read_record (cars_file ?st) pos = Inr ?new" using sr(1) by simp
  show "get_car_by_vin v ?st = Inr (decode_car [a, b, c, d, s])"
    using l assms(2) rd sr(2) by (rule get_car_by_vin_fields)
qed

lemma revert_sale_unfold:
  assumes "load_index (sales_index_file st) = Inr sales_index"
      and "first_match sales_index number = Some pos"
      and "read_record (sales_file st) pos = Inr r"
      and "split_max BAR 4 r = [a, b, c, d, e]"
      and "strip e \<noteq> ''True''"
  shows "revert_sale number st =
     (case update_car_status (strip b) CarStatus_available
             (st\<lparr>sales_file := write_at (sales_file st) (nat pos * RECORD_SIZE_WITH_NL)
                     (format_record (join [BAR] [a, b, c, d, ''True'']))\<rparr>) of
        (Inl err, st2) \<Rightarrow> (Inl err, st2)
      | (Inr u, st2) \<Rightarrow> (get_car_by_vin (strip b) st2, st2))"
proof -
  have "0 \<le> pos" using assms(3) by (rule read_record_props)
  then show ?thesis using assms
    by (simp add: revert_sale_def Let_def write_record_ok del: join.simps)
qed

lemma revert_sale_deleted:
  assumes "load_index (sales_index_file st) = Inr sales_index"
      and "first_match sales_index number = Some pos"
      and "read_record (sales_file st) pos = Inr r"
      and "split_max BAR 4 r = [a, b, c, d, e]"
      and "strip e = ''True''"
  shows "revert_sale number st = (Inl (SaleAlreadyDeleted number), st)"
  using assms by (simp add: revert_sale_def Let_def)

lemma strip_status_simps [simp]:
  "strip CarStatus_sold = CarStatus_sold" "strip CarStatus_available = CarStatus_available"
  "CR \<notin> set CarStatus_sold" "CR \<notin> set CarStatus_available"
  "strip ''True'' = ''True''" "strip ''False'' = ''False''"
  by (simp_all add: CarStatus_sold_def CarStatus_available_def strip_def lstrip_def rstrip_def
      py_isspace_def)

lemma sell_car_existing:
  assumes "load_index (cars_index_file st) = Inr cars_index"
      and "first_match cars_index (car_vin sale) = Some cpos"
      and "read_record (cars_file st) cpos = Inr r"
      and "split_max BAR 4 r = [a, b, c, d, e]"
      and "length (join [BAR] [a, b, c, d, CarStatus_sold]) \<le> RECORD_SIZE"
      and "load_index (sales_index_file st) = Inr sales_index"
  shows "sell_car sale st =
           (Inr (decode_car [a, b, c, d, CarStatus_sold]),
            st\<lparr>sales_file := write_at (sales_file st)
                     (nat (find_free_position (sales_file st)) * RECORD_SIZE_WITH_NL)
                     (format_record (sale_data sale)),
               sales_index_file := save_index (sort_key fst
                     (sales_index @ [(sales_number sale, find_free_position (sales_file st))])),
               cars_file := write_at (cars_file st) (nat cpos * RECORD_SIZE_WITH_NL)
                     (format_record (join [BAR] [a, b, c, d, CarStatus_sold]))\<rparr>)"
proof -
  let ?stA = "st\<lparr>sales_file := write_at (sales_file st)
                     (nat (find_free_position (sales_file st)) * RECORD_SIZE_WITH_NL)
                     (format_record (sale_data sale)),
               sales_index_file := save_index (sort_key fst
                     (sales_index @ [(sales_number sale, find_free_position (sales_file st))]))\<rparr>"
  have l: "load_index (cars_index_file ?stA) = Inr cars_index" using assms(1) by simp
  have rd: "read_record (cars_file ?stA) cpos = Inr r" using assms(3) by simp
  have s1: "strip CarStatus_sold = CarStatus_sold" and s2: "CR \<notin> set CarStatus_sold" by simp_all
  note ss = set_status [OF l assms(2) rd assms(4) s1 s2 assms(5)]
  show ?thesis
    unfolding sell_car_unfold [OF assms(6)] ss(1) using ss(2) by simp
qed

lemma sale_data_rstrip: "rstrip (sale_data sale) = sale_data sale"
proof -
  have "rstrip ((sales_number sale @ BAR # car_vin sale @ BAR # cost sale @ BAR # sales_date sale)
                  @ BAR # ''False'')
        = (sales_number sale @ BAR # car_vin sale @ BAR # cost sale @ BAR # sales_date sale)
                  @ BAR # ''False''"
    by (rule rstrip_bar_field) simp
  then show ?thesis by (simp add: sale_data_def)
qed

lemma sale_data_split:
  "sale_text_ok sale \<Longrightarrow>
     split_max BAR 4 (sale_data sale)
       = [sales_number sale, car_vin sale, cost sale, sales_date sale, ''False'']"
  using split_max_fields5 [of "sales_number sale" "car_vin sale" "cost sale" "sales_date sale"
      "''False''"]
  by (simp add: sale_text_ok_def sale_data_def)

lemma sale_record_written:
  assumes "sale_text_ok sale"
  shows "read_record (write_at f (nat (find_free_position f) * RECORD_SIZE_WITH_NL)
                        (format_record (sale_data sale))) (find_free_position f)
           = Inr (sale_data sale)"
proof -
  have "length (sale_data sale) \<le> RECORD_SIZE" "CR \<notin> set (sale_data sale)"
    using assms by (simp_all add: sale_text_ok_def)
  then have "read_record (write_at f (nat (find_free_position f) * RECORD_SIZE_WITH_NL)
                        (format_record (sale_data sale))) (find_free_position f)
           = Inr (rstrip (sale_data sale))"
    using read_after_write [of "find_free_position f" "sale_data sale" f] by simp
  then show ?thesis by (simp only: sale_data_rstrip)
qed

lemma revert_sale_existing:
  assumes "load_index (sales_index_file st) = Inr sales_index"
      and "first_match sales_index number = Some pos"
      and "read_record (sales_file st) pos = Inr sr"
      and "split_max BAR 4 sr = [sa, sb, sc, sd, se]"
      and "strip se \<noteq> ''True''"
      and "load_index (cars_index_file st) = Inr cars_index"
      and "first_match cars_index (strip sb) = Some cpos"
      and "read_record (cars_file st) cpos = Inr r"
      and "split_max BAR 4 r = [a, b, c, d, e]"
      and "length (join [BAR] [a, b, c, d, CarStatus_available]) \<le> RECORD_SIZE"
  shows "revert_sale number st =
           (Inr (decode_car [a, b, c, d, CarStatus_available]),
            st\<lparr>sales_file := write_at (sales_file st) (nat pos * RECORD_SIZE_WITH_NL)
                     (format_record (join [BAR] [sa, sb, sc, sd, ''True''])),
               cars_file := write_at (cars_file st) (nat cpos * RECORD_SIZE_WITH_NL)
                     (format_record (join [BAR] [a, b, c, d, CarStatus_available]))\<rparr>)"
proof -
  let ?stB = "st\<lparr>sales_file := write_at (sales_file st) (nat pos * RECORD_SIZE_WITH_NL)
                     (format_record (join [BAR] [sa, sb, sc, sd, ''True'']))\<rparr>"
  have l: "load_index (cars_index_file ?stB) = Inr cars_index" using assms(6) by simp
  have rd: "read_record (cars_file ?stB) cpos = Inr r" using assms(8) by simp
  have s1: "strip CarStatus_available = CarStatus_available"
    and s2: "CR \<notin> set CarStatus_available" by simp_all
  note ss = set_status [OF l assms(7) rd assms(9) s1 s2 assms(10)]
  show ?thesis
    unfolding revert_sale_unfold [OF assms(1,2,3,4,5)] ss(1) using ss(2) by simp
qed

lemma length_sold_le:
  "length (join [BAR] [a, b, c, d, CarStatus_available]) \<le> n \<Longrightarrow>
   length (join [BAR] [a, b, c, d, CarStatus_sold]) \<le> n"
  by (simp add: CarStatus_sold_def CarStatus_available_def)

lemma length_deleted_le:
  "length (join [BAR] [sales_number sale, car_vin sale, cost sale, sales_date sale, ''True''])
     \<le> length (sale_data sale)"
  by (simp add: sale_data_def)

lemma decode_car_status:
  "strip s = s \<Longrightarrow>
   decode_car [a, b, c, d, s]
     = \<lparr>vin = strip a, model = strip b, price = strip c, date_start = strip d, status = s\<rparr>"
  by (simp add: decode_car_def)

lemma key_ok_sale_1: "key_ok (sales_number sale_1)"
  by (simp add: sale_1_def key_ok_def lstrip_def py_isspace_def)

lemma sale_text_ok_sale_1: "sale_text_ok sale_1"
  by (simp add: sale_1_def sale_text_ok_def sale_data_def strip_def lstrip_def rstrip_def
      py_isspace_def RECORD_SIZE_def)

lemma read_record_slot: "read_record file (int pos) = Inr (slot_record file pos)"
  by (simp add: read_record_def slot_record_def)

lemma get_cars_loop_eq:
  "get_cars_loop file s ps cars
     = Inr (cars @ map (car_at file) (filter (slot_has_status file s) ps))"
  by (induction ps arbitrary: cars)
     (simp_all add: read_record_slot Let_def slot_has_status_def car_at_def)

lemma sorted_filter_upt: "sorted (filter P [0 ..< n]) \<and> distinct (filter P [0 ..< n])"
  by (simp add: sorted_wrt_filter)

lemma payloads_ok_ball: "payloads_ok ds \<longleftrightarrow> (\<forall>d\<in>set ds. payload_ok d)"
  by (simp add: payloads_ok_def list_all_iff)

lemma index_ok_ball: "index_ok idx \<longleftrightarrow> sorted (map fst idx) \<and> (\<forall>e\<in>set idx. key_ok (fst e))"
  by (simp add: index_ok_def list_all_iff)

lemma load_index_ok: "index_ok idx \<Longrightarrow> load_index (save_index idx) = Inr idx"
  using load_save_index [of idx] by (simp add: index_ok_ball sort_key_id_if_sorted)

lemma index_ok_insert:
  "index_ok idx \<Longrightarrow> key_ok k \<Longrightarrow> index_ok (sort_key fst (idx @ [(k, p)]))"
  by (auto simp: index_ok_ball)

lemma index_ok_Nil [simp]: "index_ok []"
  by (simp add: index_ok_def)

lemma payloads_ok_Nil [simp]: "payloads_ok []"
  by (simp add: payloads_ok_def)

lemma payloads_ok_append:
  "payloads_ok (ds @ [d]) \<longleftrightarrow> payloads_ok ds \<and> payload_ok d"
  by (auto simp: payloads_ok_ball)

lemma payloads_ok_update:
  "payloads_ok ds \<Longrightarrow> payload_ok d \<Longrightarrow> payloads_ok (ds[i := d])"
  unfolding payloads_ok_ball using set_update_subset_insert [of ds i d] by auto

lemma store_files [simp]:
  "models_file (store ms mi cs ci ss si) = data_file ms"
  "models_index_file (store ms mi cs ci ss si) = save_index mi"
  "cars_file (store ms mi cs ci ss si) = data_file cs"
  "cars_index_file (store ms mi cs ci ss si) = save_index ci"
  "sales_file (store ms mi cs ci ss si) = data_file ss"
  "sales_index_file (store ms mi cs ci ss si) = save_index si"
  by (simp_all add: store_def)

lemma store_update:
  "(store ms mi cs ci ss si)\<lparr>models_file := data_file ms', models_index_file := save_index mi'\<rparr>
     = store ms' mi' cs ci ss si"
  "(store ms mi cs ci ss si)\<lparr>cars_file := data_file cs', cars_index_file := save_index ci'\<rparr>
     = store ms mi cs' ci' ss si"
  "(store ms mi cs ci ss si)\<lparr>sales_file := data_file ss', sales_index_file := save_index si'\<rparr>
     = store ms mi cs ci ss' si'"
  "(store ms mi cs ci ss si)\<lparr>cars_file := data_file cs'\<rparr> = store ms mi cs' ci ss si"
  "(store ms mi cs ci ss si)\<lparr>sales_file := data_file ss'\<rparr> = store ms mi cs ci ss' si"
  by (simp_all add: store_def)

lemma init_fs_store: "init_fs = store [] [] [] [] [] []"
  by (simp add: init_fs_def store_def)

lemma append_data_file_length:
  assumes "\<forall>d\<in>set ds. payload_ok d"
  shows "write_at (data_file ds) (length ds * RECORD_SIZE_WITH_NL) (format_record d)
           = data_file (ds @ [d])"
  using append_data_file [OF assms, of d] free_position_data_file [OF assms] by simp

lemma add_model_store:
  assumes "payloads_ok ms" and "index_ok mi"
  shows "add_model m (store ms mi cs ci ss si)
           = (Inr m, store (ms @ [model_data m])
                       (sort_key fst (mi @ [(id_model m, int (length ms))])) cs ci ss si)"
proof -
  have a: "\<forall>d\<in>set ms. payload_ok d" using assms(1) by (simp add: payloads_ok_ball)
  show ?thesis
    by (simp add: add_model_def Let_def write_record_ok load_index_ok [OF assms(2)]
        append_data_file_length [OF a] free_position_data_file [OF a] store_update)
qed

lemma add_car_store:
  assumes "payloads_ok cs" and "index_ok ci"
  shows "add_car car (store ms mi cs ci ss si)
           = (Inr car, store ms mi (cs @ [car_data car])
                       (sort_key fst (ci @ [(vin car, int (length cs))])) ss si)"
proof -
  have a: "\<forall>d\<in>set cs. payload_ok d" using assms(1) by (simp add: payloads_ok_ball)
  show ?thesis
    by (simp add: add_car_def Let_def write_record_ok load_index_ok [OF assms(2)]
        append_data_file_length [OF a] free_position_data_file [OF a] store_update)
qed

lemma read_data_file_int:
  assumes "payloads_ok ds" and "0 \<le> p" and "nat p < length ds"
  shows "read_record (data_file ds) p = Inr (rstrip (ds ! nat p))"
proof -
  have "\<forall>d\<in>set ds. payload_ok d" using assms(1) by (simp add: payloads_ok_ball)
  from read_data_file [OF this assms(3)] show ?thesis using assms(2) by simp
qed

lemma rewrite_data_file_int:
  assumes "payloads_ok ds" and "0 \<le> p" and "nat p < length ds" and "payload_ok d"
  shows "write_record (data_file ds) p (format_record d) = Inr (data_file (ds[nat p := d]))"
proof -
  have "\<forall>d\<in>set ds. payload_ok d" using assms(1) by (simp add: payloads_ok_ball)
  from rewrite_data_file [OF this assms(3,4)] show ?thesis using assms(2)
    by (simp add: write_record_ok)
qed

lemma update_car_status_store:
  assumes "payloads_ok cs" and "index_ok ci"
      and "first_match ci v = Some p" and "0 \<le> p" and "nat p < length cs"
      and "length (split_max BAR 4 (rstrip (cs ! nat p))) = 5"
      and "payload_ok (join [BAR] ((split_max BAR 4 (rstrip (cs ! nat p)))[4 := s]))"
  shows "update_car_status v s (store ms mi cs ci ss si)
           = (Inr (), store ms mi
                (cs[nat p := join [BAR] ((split_max BAR 4 (rstrip (cs ! nat p)))[4 := s])]) ci ss si)"
  using assms(3,6)
  by (simp add: update_car_status_def Let_def load_index_ok [OF assms(2)]
      read_data_file_int [OF assms(1,4,5)] rewrite_data_file_int [OF assms(1,4,5,7)]
      store_update del: join.simps)

lemma update_car_status_store_missing:
  assumes "index_ok ci" and "first_match ci v = None"
  shows "update_car_status v s (store ms mi cs ci ss si) = (Inr (), store ms mi cs ci ss si)"
  using assms(2) by (simp add: update_car_status_def load_index_ok [OF assms(1)])

lemma store_update_index:
  "(store ms mi cs ci ss si)\<lparr>models_index_file := save_index mi'\<rparr> = store ms mi' cs ci ss si"
  "(store ms mi cs ci ss si)\<lparr>cars_index_file := save_index ci'\<rparr> = store ms mi cs ci' ss si"
  "(store ms mi cs ci ss si)\<lparr>sales_index_file := save_index si'\<rparr> = store ms mi cs ci ss si'"
  "(store ms mi cs ci ss si)\<lparr>models_file := data_file ms'\<rparr> = store ms' mi cs ci ss si"
  by (simp_all add: store_def)

lemma snd_case_prod_sum:
  "snd (case x of (Inl e, s) \<Rightarrow> (Inl e, s) | (Inr u, s) \<Rightarrow> (g s, s)) = snd x"
  by (cases x; cases "fst x") auto

lemma snd_sell_car_store:
  assumes "payloads_ok ss" and "index_ok si"
  shows "snd (sell_car sale (store ms mi cs ci ss si))
           = snd (update_car_status (car_vin sale) CarStatus_sold
                    (store ms mi cs ci (ss @ [sale_data sale])
                       (sort_key fst (si @ [(sales_number sale, int (length ss))]))))"
proof -
  have a: "\<forall>d\<in>set ss. payload_ok d" using assms(1) by (simp add: payloads_ok_ball)
  have l: "load_index (sales_index_file (store ms mi cs ci ss si)) = Inr si"
    using assms(2) by (simp add: load_index_ok)
  show ?thesis
    unfolding sell_car_unfold [OF l] snd_case_prod_sum
    by (simp add: append_data_file_length [OF a] free_position_data_file [OF a] store_update
        store_update_index)
qed

lemma snd_revert_sale_store:
  assumes "payloads_ok ss" and "index_ok si"
      and "first_match si number = Some p" and "0 \<le> p" and "nat p < length ss"
      and "length (split_max BAR 4 (rstrip (ss ! nat p))) = 5"
      and "strip (split_max BAR 4 (rstrip (ss ! nat p)) ! 4) \<noteq> ''True''"
      and "payload_ok (join [BAR] ((split_max BAR 4 (rstrip (ss ! nat p)))[4 := ''True'']))"
  shows "snd (revert_sale number (store ms mi cs ci ss si))
           = snd (update_car_status (strip (split_max BAR 4 (rstrip (ss ! nat p)) ! 1))
                    CarStatus_available
                    (store ms mi cs ci
                       (ss[nat p := join [BAR] ((split_max BAR 4 (rstrip (ss ! nat p)))[4 := ''True''])])
                       si))"
  using assms(3,6,7)
  by (simp add: revert_sale_def Let_def load_index_ok [OF assms(2)]
      read_data_file_int [OF assms(1,4,5)] rewrite_data_file_int [OF assms(1,4,5,8)]
      store_update snd_case_prod_sum del: join.simps)

lemmas text_simps =
  payloads_ok_def payload_ok_def index_ok_def key_ok_def
  lstrip_def rstrip_def strip_def py_isspace_def RECORD_SIZE_def

lemma store_1_store:
  "store_1 = store [] [] [''KNAGM4A77D5316538|1|2000|2024-02-08T00:00:00|available'']
               [(''KNAGM4A77D5316538'', 0)] [] []"
  unfolding store_1_def init_fs_store
  by (simp add: add_car_store car_data_def car_1_def)

lemma get_car_by_vin_store:
  assumes "payloads_ok cs" and "index_ok ci"
      and "first_match ci v = Some p" and "0 \<le> p" and "nat p < length cs"
  shows "get_car_by_vin v (store ms mi cs ci ss si) =
           (if rstrip (cs ! nat p) = [] then Inl (CarNotFound v)
            else if length (split_max BAR 4 (rstrip (cs ! nat p))) < 5 then Inl IndexError
            else Inr (decode_car (split_max BAR 4 (rstrip (cs ! nat p)))))"
  using assms(3)
  by (simp add: get_car_by_vin_def find_car_by_vin_def Let_def load_index_ok [OF assms(2)]
      read_data_file_int [OF assms(1,4,5)])

lemma get_car_by_vin_store_missing:
  assumes "index_ok ci" and "first_match ci v = None"
  shows "get_car_by_vin v (store ms mi cs ci ss si) = Inl (CarNotFound v)"
  using assms(2)
  by (simp add: get_car_by_vin_def find_car_by_vin_def load_index_ok [OF assms(1)])

lemma duplicate_lookup_example:
  "get_car_by_vin (vin car_1b) (snd (add_car car_1b store_1)) = Inr car_1 \<and> car_1b \<noteq> car_1"
  unfolding store_1_store
  by (simp add: add_car_store get_car_by_vin_store text_simps car_data_def car_1b_def car_1_def
      decode_car_def eval_nat_numeral)

lemma bar_lookup_example:
  "fst (add_car car_bar init_fs) = Inr car_bar
   \<and> get_car_by_vin (vin car_bar) (snd (add_car car_bar init_fs))
     = Inr \<lparr>vin = ''A'', model = ''B'', price = ''1'', date_start = ''2000'',
             status = ''2024-02-08T00:00:00|available''\<rparr>"
  unfolding init_fs_store
  by (simp add: add_car_store get_car_by_vin_store text_simps car_data_def car_bar_def
      decode_car_def eval_nat_numeral)

lemma car_data_long:
  "car_data car_long = replicate 470 (CHR ''A'') @ ''|1|2000|2024-02-08T00:00:00|available''"
  by (simp add: car_data_def car_long_def)

lemma length_car_data_long: "length (car_data car_long) = 507"
  by (simp add: car_data_long)

lemma key_ok_long: "key_ok (vin car_long)"
  by (simp add: car_long_def key_ok_def lstrip_def py_isspace_def)

lemma add_car_long:
  "add_car car_long init_fs
     = (Inr car_long,
        init_fs\<lparr>cars_file := car_data car_long @ [LF],
                cars_index_file := save_index [(vin car_long, 0)]\<rparr>)"
proof -
  have "format_record (car_data car_long) = car_data car_long @ [LF]"
    by (simp add: format_record_def ljust_def length_car_data_long RECORD_SIZE_def)
  then show ?thesis
    by (simp add: add_car_result [of init_fs "[]"] load_index_empty write_at_Nil_0)
qed

lemma read_long:
  "read_record (car_data car_long @ [LF]) 0
     = Inr (replicate 470 (CHR ''A'') @ ''|1|2000|2024-02-08T00:00:00|av'')"
proof -
  let ?r = "replicate 470 (CHR ''A'') @ ''|1|2000|2024-02-08T00:00:00|av''"
  have "CR \<notin> set (car_data car_long @ [LF])" by (simp add: car_data_long)
  then have u: "universal_newlines (car_data car_long @ [LF]) = car_data car_long @ [LF]"
    by (rule universal_newlines_id)
  have t: "take RECORD_SIZE (car_data car_long @ [LF]) = ?r"
    by (simp add: car_data_long RECORD_SIZE_def)
  have rs: "rstrip ?r = ?r"
    by (rule rstrip_id) (simp add: py_isspace_def)
  have "read_record (car_data car_long @ [LF]) 0
          = Inr (rstrip (take RECORD_SIZE (universal_newlines (car_data car_long @ [LF]))))"
    by (simp add: read_record_def)
  then show ?thesis by (simp only: u t rs)
qed

lemma split_long:
  "split_max BAR 4 (replicate 470 (CHR ''A'') @ ''|1|2000|2024-02-08T00:00:00|av'')
     = [replicate 470 (CHR ''A''), ''1'', ''2000'', ''2024-02-08T00:00:00'', ''av'']"
  using split_max_fields5 [of "replicate 470 (CHR ''A'')" "''1''" "''2000''"
      "''2024-02-08T00:00:00''" "''av''"]
  by simp

lemma strip_replicate_A: "strip (replicate 470 (CHR ''A'')) = replicate 470 (CHR ''A'')"
  by (rule strip_id) (simp add: py_isspace_def)

lemma long_lookup_example:
  "get_car_by_vin (vin car_long) (snd (add_car car_long init_fs))
     = Inr \<lparr>vin = replicate 470 (CHR ''A''), model = ''1'', price = ''2000'',
             date_start = ''2024-02-08T00:00:00'', status = ''av''\<rparr>"
proof -
  have l: "load_index (save_index [(vin car_long, 0)]) = Inr [(vin car_long, 0)]"
    using load_save_index [of "[(vin car_long, 0)]"] key_ok_long by simp
  have n: "replicate 470 (CHR ''A'') @ ''|1|2000|2024-02-08T00:00:00|av'' \<noteq> []" by simp
  show ?thesis
    unfolding add_car_long
    using n
    by (simp add: get_car_by_vin_def find_car_by_vin_def Let_def l read_long split_long
        decode_car_def strip_replicate_A)
       (simp add: strip_def lstrip_def rstrip_def py_isspace_def)
qed

lemma long_scan_example: "get_cars ''available'' (snd (add_car car_long init_fs)) = Inr []"
proof -
  have s: "slot_record (car_data car_long @ [LF]) 0
             = replicate 470 (CHR ''A'') @ ''|1|2000|2024-02-08T00:00:00|av''"
    using read_long read_record_slot [of "car_data car_long @ [LF]" 0] by simp
  have "\<not> slot_has_status (car_data car_long @ [LF]) ''available'' 0"
    by (simp add: slot_has_status_def s split_long)
       (simp add: strip_def lstrip_def rstrip_def py_isspace_def)
  then show ?thesis
    unfolding add_car_long
    by (simp add: get_cars_def Let_def get_cars_loop_eq length_car_data_long
        RECORD_SIZE_WITH_NL_def)
qed

lemma update_vin_store:
  assumes "payloads_ok cs" and "index_ok ci"
      and "first_match_enum ci v 0 = Some (i, p)" and "0 \<le> p" and "nat p < length cs"
      and "length (split_max BAR 4 (rstrip (cs ! nat p))) = 5"
      and "payload_ok (join [BAR] ((split_max BAR 4 (rstrip (cs ! nat p)))[0 := new_vin]))"
  shows "update_vin v new_vin (store ms mi cs ci ss si)
           = (get_car_by_vin new_vin
                (store ms mi
                   (cs[nat p := join [BAR] ((split_max BAR 4 (rstrip (cs ! nat p)))[0 := new_vin])])
                   (sort_key fst (ci[i := (new_vin, p)])) ss si),
              store ms mi
                   (cs[nat p := join [BAR] ((split_max BAR 4 (rstrip (cs ! nat p)))[0 := new_vin])])
                   (sort_key fst (ci[i := (new_vin, p)])) ss si)"
  using assms(3,6)
  by (simp add: update_vin_def Let_def load_index_ok [OF assms(2)]
      read_data_file_int [OF assms(1,4,5)] rewrite_data_file_int [OF assms(1,4,5,7)]
      store_update store_update_index del: join.simps)

lemma case_prod_sum_ok:
  "x = (Inr u, s) \<Longrightarrow>
     (case x of (Inl e, s') \<Rightarrow> (Inl e, s') | (Inr u', s') \<Rightarrow> (g s', s')) = (g s, s)"
  by simp

lemma sell_car_store:
  assumes "payloads_ok ss" and "index_ok si"
      and "update_car_status (car_vin sale) CarStatus_sold
             (store ms mi cs ci (ss @ [sale_data sale])
                (sort_key fst (si @ [(sales_number sale, int (length ss))]))) = (Inr (), st')"
  shows "sell_car sale (store ms mi cs ci ss si) = (get_car_by_vin (car_vin sale) st', st')"
proof -
  have a: "\<forall>d\<in>set ss. payload_ok d" using assms(1) by (simp add: payloads_ok_ball)
  have l: "load_index (sales_index_file (store ms mi cs ci ss si)) = Inr si"
    using assms(2) by (simp add: load_index_ok)
  have e: "(store ms mi cs ci ss si)
             \<lparr>sales_file := write_at (sales_file (store ms mi cs ci ss si))
                 (nat (find_free_position (sales_file (store ms mi cs ci ss si)))
                    * RECORD_SIZE_WITH_NL) (format_record (sale_data sale)),
              sales_index_file := save_index (sort_key fst
                 (si @ [(sales_number sale,
                         find_free_position (sales_file (store ms mi cs ci ss si)))]))\<rparr>
           = store ms mi cs ci (ss @ [sale_data sale])
                (sort_key fst (si @ [(sales_number sale, int (length ss))]))"
    by (simp add: append_data_file_length [OF a] free_position_data_file [OF a] store_update
        store_update_index)
  show ?thesis
    unfolding sell_car_unfold [OF l] e by (rule case_prod_sum_ok) (rule assms(3))
qed

lemma revert_sale_store:
  assumes "payloads_ok ss" and "index_ok si"
      and "first_match si number = Some p" and "0 \<le> p" and "nat p < length ss"
      and "length (split_max BAR 4 (rstrip (ss ! nat p))) = 5"
      and "strip (split_max BAR 4 (rstrip (ss ! nat p)) ! 4) \<noteq> ''True''"
      and "payload_ok (join [BAR] ((split_max BAR 4 (rstrip (ss ! nat p)))[4 := ''True'']))"
      and "update_car_status (strip (split_max BAR 4 (rstrip (ss ! nat p)) ! 1))
             CarStatus_available
             (store ms mi cs ci
                (ss[nat p := join [BAR] ((split_max BAR 4 (rstrip (ss ! nat p)))[4 := ''True''])])
                si) = (Inr (), st')"
  shows "revert_sale number (store ms mi cs ci ss si)
           = (get_car_by_vin (strip (split_max BAR 4 (rstrip (ss ! nat p)) ! 1)) st', st')"
  using assms(3,6,7,9)
  by (simp add: revert_sale_def Let_def load_index_ok [OF assms(2)]
      read_data_file_int [OF assms(1,4,5)] rewrite_data_file_int [OF assms(1,4,5,8)]
      store_update del: join.simps)

lemma str_int_0: "str_int 0 = ''0''"
  by code_simp

lemma load_index_colon_examples:
  "load_index (save_index [(''a:b'', 0)]) = Inl (InvalidIntLiteral ''b:0'')"
  "load_index (save_index [(''S:1'', 0)]) = Inl (InvalidIntLiteral ''1:0'')"
  by (simp_all add: save_index_def str_int_0 load_index_def
      strip_def lstrip_def rstrip_def py_isspace_def py_int_def int_strip_def int_isspace_def
      py_nat_def is_digit_def)

lemma first_match_enum_car_1:
  "first_match_enum [(''KNAGM4A77D5316538'', 0)] (vin car_1) 0 = Some (0, 0)"
  by (simp add: car_1_def)

lemma rename_bar_example:
  "update_vin (vin car_1) ''X|Y'' store_1
     = (Inr \<lparr>vin = ''X'', model = ''Y'', price = ''1'', date_start = ''2000'',
              status = ''2024-02-08T00:00:00|available''\<rparr>,
        store [] [] [''X|Y|1|2000|2024-02-08T00:00:00|available''] [(''X|Y'', 0)] [] [])"
  unfolding store_1_store
  by (simp add: update_vin_store [OF _ _ first_match_enum_car_1] get_car_by_vin_store text_simps
      decode_car_def eval_nat_numeral)

lemma rename_colon_example:
  "update_vin (vin car_1) ''a:b'' store_1
     = (Inl (InvalidIntLiteral ''b:0''),
        store [] [] [''a:b|1|2000|2024-02-08T00:00:00|available''] [(''a:b'', 0)] [] [])"
  unfolding store_1_store
  by (simp add: update_vin_store [OF _ _ first_match_enum_car_1] text_simps eval_nat_numeral
      get_car_by_vin_def find_car_by_vin_def load_index_colon_examples)

lemma sell_colon_example:
  "sell_car sale_colon store_1
     = (Inr \<lparr>vin = ''KNAGM4A77D5316538'', model = ''1'', price = ''2000'',
              date_start = ''2024-02-08T00:00:00'', status = ''sold''\<rparr>,
        store [] [] [''KNAGM4A77D5316538|1|2000|2024-02-08T00:00:00|sold'']
          [(''KNAGM4A77D5316538'', 0)]
          [''S:1|KNAGM4A77D5316538|1999.09|2024-09-03T00:00:00|False''] [(''S:1'', 0)])"
proof -
  have u: "update_car_status (car_vin sale_colon) CarStatus_sold
             (store [] [] [''KNAGM4A77D5316538|1|2000|2024-02-08T00:00:00|available'']
                [(''KNAGM4A77D5316538'', 0)] ([] @ [sale_data sale_colon])
                (sort_key fst ([] @ [(sales_number sale_colon, int (length ([]::string list)))])))
           = (Inr (),
              store [] [] [''KNAGM4A77D5316538|1|2000|2024-02-08T00:00:00|sold'']
                [(''KNAGM4A77D5316538'', 0)]
                [''S:1|KNAGM4A77D5316538|1999.09|2024-09-03T00:00:00|False''] [(''S:1'', 0)])"
    by (simp add: update_car_status_store [where p = 0] text_simps sale_data_def sale_colon_def
        CarStatus_sold_def eval_nat_numeral)
  have g: "get_car_by_vin (car_vin sale_colon)
             (store [] [] [''KNAGM4A77D5316538|1|2000|2024-02-08T00:00:00|sold'']
                [(''KNAGM4A77D5316538'', 0)]
                [''S:1|KNAGM4A77D5316538|1999.09|2024-09-03T00:00:00|False''] [(''S:1'', 0)])
           = Inr \<lparr>vin = ''KNAGM4A77D5316538'', model = ''1'', price = ''2000'',
                   date_start = ''2024-02-08T00:00:00'', status = ''sold''\<rparr>"
    by (simp add: get_car_by_vin_store [where p = 0] text_simps sale_colon_def decode_car_def
        eval_nat_numeral)
  show ?thesis
    unfolding store_1_store
    using sell_car_store [OF payloads_ok_Nil index_ok_Nil u] g by simp
qed

lemma revert_colon_example:
  "revert_sale ''S:1''
     (store [] [] [''KNAGM4A77D5316538|1|2000|2024-02-08T00:00:00|sold'']
          [(''KNAGM4A77D5316538'', 0)]
          [''S:1|KNAGM4A77D5316538|1999.09|2024-09-03T00:00:00|False''] [(''S:1'', 0)])
     = (Inl (InvalidIntLiteral ''1:0''),
        store [] [] [''KNAGM4A77D5316538|1|2000|2024-02-08T00:00:00|sold'']
          [(''KNAGM4A77D5316538'', 0)]
          [''S:1|KNAGM4A77D5316538|1999.09|2024-09-03T00:00:00|False''] [(''S:1'', 0)])"
  by (simp add: revert_sale_def load_index_colon_examples)

lemma sell_bar_example:
  "sell_car sale_bar store_1
     = (Inr \<lparr>vin = ''KNAGM4A77D5316538'', model = ''1'', price = ''2000'',
              date_start = ''2024-02-08T00:00:00'', status = ''sold''\<rparr>,
        store [] [] [''KNAGM4A77D5316538|1|2000|2024-02-08T00:00:00|sold'']
          [(''KNAGM4A77D5316538'', 0)]
          [''S|1|KNAGM4A77D5316538|1999.09|2024-09-03T00:00:00|False''] [(''S|1'', 0)])"
proof -
  have u: "update_car_status (car_vin sale_bar) CarStatus_sold
             (store [] [] [''KNAGM4A77D5316538|1|2000|2024-02-08T00:00:00|available'']
                [(''KNAGM4A77D5316538'', 0)] ([] @ [sale_data sale_bar])
                (sort_key fst ([] @ [(sales_number sale_bar, int (length ([]::string list)))])))
           = (Inr (),
              store [] [] [''KNAGM4A77D5316538|1|2000|2024-02-08T00:00:00|sold'']
                [(''KNAGM4A77D5316538'', 0)]
                [''S|1|KNAGM4A77D5316538|1999.09|2024-09-03T00:00:00|False''] [(''S|1'', 0)])"
    by (simp add: update_car_status_store [where p = 0] text_simps sale_data_def sale_bar_def
        CarStatus_sold_def eval_nat_numeral)
  have g: "get_car_by_vin (car_vin sale_bar)
             (store [] [] [''KNAGM4A77D5316538|1|2000|2024-02-08T00:00:00|sold'']
                [(''KNAGM4A77D5316538'', 0)]
                [''S|1|KNAGM4A77D5316538|1999.09|2024-09-03T00:00:00|False''] [(''S|1'', 0)])
           = Inr \<lparr>vin = ''KNAGM4A77D5316538'', model = ''1'', price = ''2000'',
                   date_start = ''2024-02-08T00:00:00'', status = ''sold''\<rparr>"
    by (simp add: get_car_by_vin_store [where p = 0] text_simps sale_bar_def decode_car_def
        eval_nat_numeral)
  show ?thesis
    unfolding store_1_store
    using sell_car_store [OF payloads_ok_Nil index_ok_Nil u] g by simp
qed

lemma revert_bar_example:
  "revert_sale ''S|1''
     (store [] [] [''KNAGM4A77D5316538|1|2000|2024-02-08T00:00:00|sold'']
          [(''KNAGM4A77D5316538'', 0)]
          [''S|1|KNAGM4A77D5316538|1999.09|2024-09-03T00:00:00|False''] [(''S|1'', 0)])
     = (Inl (CarNotFound ''1''),
        store [] [] [''KNAGM4A77D5316538|1|2000|2024-02-08T00:00:00|sold'']
          [(''KNAGM4A77D5316538'', 0)]
          [''S|1|KNAGM4A77D5316538|1999.09|True''] [(''S|1'', 0)])"
proof -
  let ?ss = "[''S|1|KNAGM4A77D5316538|1999.09|2024-09-03T00:00:00|False'']"
  let ?st = "store [] [] [''KNAGM4A77D5316538|1|2000|2024-02-08T00:00:00|sold'']
          [(''KNAGM4A77D5316538'', 0)]
          [''S|1|KNAGM4A77D5316538|1999.09|True''] [(''S|1'', 0)]"
  have f: "split_max BAR 4 (rstrip (?ss ! nat 0))
             = [''S'', ''1'', ''KNAGM4A77D5316538'', ''1999.09'', ''2024-09-03T00:00:00|False'']"
    by (simp add: text_simps eval_nat_numeral)
  have p: "payloads_ok ?ss" and i: "index_ok [(''S|1'', 0)]" by (simp_all add: text_simps)
  have m: "first_match [(''S|1'', 0)] ''S|1'' = Some 0" by simp
  have l: "length (split_max BAR 4 (rstrip (?ss ! nat 0))) = 5" unfolding f by simp
  have t: "strip (split_max BAR 4 (rstrip (?ss ! nat 0)) ! 4) \<noteq> ''True''"
    unfolding f by (simp add: text_simps)
  have k: "payload_ok (join [BAR] ((split_max BAR 4 (rstrip (?ss ! nat 0)))[4 := ''True'']))"
    unfolding f by (simp add: text_simps)
  have u: "update_car_status (strip (split_max BAR 4 (rstrip (?ss ! nat 0)) ! 1))
             CarStatus_available
             (store [] [] [''KNAGM4A77D5316538|1|2000|2024-02-08T00:00:00|sold'']
                [(''KNAGM4A77D5316538'', 0)]
                (?ss[nat 0 := join [BAR] ((split_max BAR 4 (rstrip (?ss ! nat 0)))[4 := ''True''])])
                [(''S|1'', 0)]) = (Inr (), ?st)"
    unfolding f
    by (simp add: update_car_status_store_missing text_simps)
  have g: "get_car_by_vin (strip (split_max BAR 4 (rstrip (?ss ! nat 0)) ! 1)) ?st
             = Inl (CarNotFound ''1'')"
    unfolding f by (simp add: get_car_by_vin_store_missing text_simps)
  have "(0::int) \<le> 0" and "nat 0 < length ?ss" by simp_all
  from revert_sale_store [OF p i m this l t k u] g show ?thesis by simp
qed

lemma colon_lookup_example:
  "add_car car_colon init_fs
     = (Inr car_colon, store [] [] [''a:b|1|2000|2024-02-08T00:00:00|available'']
                         [(''a:b'', 0)] [] [])
   \<and> get_car_by_vin (vin car_colon) (snd (add_car car_colon init_fs))
       = Inl (InvalidIntLiteral ''b:0'')"
  unfolding init_fs_store
  by (simp add: add_car_store car_data_def car_colon_def get_car_by_vin_def find_car_by_vin_def
      load_index_colon_examples)

lemma load_index_blank_example: "load_index (save_index [('' V'', 0)]) = Inr [(''V'', 0)]"
  by (simp add: save_index_def str_int_0 load_index_def
      strip_def lstrip_def rstrip_def py_isspace_def py_int_def int_strip_def int_isspace_def
      py_nat_def is_digit_def digit_val_def)

lemma blank_lookup_example:
  "add_car car_blank init_fs
     = (Inr car_blank, store [] [] ['' V|1|2000|2024-02-08T00:00:00|available'']
                         [('' V'', 0)] [] [])
   \<and> get_car_by_vin (vin car_blank) (snd (add_car car_blank init_fs))
       = Inl (CarNotFound '' V'')"
  unfolding init_fs_store
  by (simp add: add_car_store car_data_def car_blank_def get_car_by_vin_def find_car_by_vin_def
      load_index_blank_example)

lemma add_duplicate_example:
  "add_car car_1b store_1
     = (Inr car_1b,
        store [] [] [''KNAGM4A77D5316538|1|2000|2024-02-08T00:00:00|available'',
                     ''KNAGM4A77D5316538|2|3000|2024-03-09T00:00:00|reserve'']
          [(''KNAGM4A77D5316538'', 0), (''KNAGM4A77D5316538'', 1)] [] [])"
  unfolding store_1_store
  by (simp add: add_car_store text_simps car_data_def car_1b_def)

lemma update_vin_five_fields:
  assumes "load_index (cars_index_file st) = Inr cars_index"
      and "first_match cars_index v = Some pos"
      and "read_record (cars_file st) pos = Inr r"
      and "split_max BAR 4 r = [a, b, c, d, e]"
      and "key_ok new_vin" and "BAR \<notin> set new_vin"
      and "length (join [BAR] [new_vin, b, c, d, e]) \<le> RECORD_SIZE"
  shows "\<exists>i. i < length cars_index \<and> cars_index ! i = (v, pos)
             \<and> load_index (cars_index_file (snd (update_vin v new_vin st)))
                 = Inr (sort_key fst (cars_index[i := (new_vin, pos)]))
             \<and> (new_vin, pos) \<in> set (sort_key fst (cars_index[i := (new_vin, pos)]))
             \<and> read_record (cars_file (snd (update_vin v new_vin st))) pos
                 = Inr (join [BAR] [new_vin, b, c, d, e])
             \<and> split_max BAR 4 (join [BAR] [new_vin, b, c, d, e]) = [new_vin, b, c, d, e]"
proof -
  obtain i where i: "first_match_enum cars_index v 0 = Some (i, pos)"
    using first_match_enum_exists [OF assms(2)] by blast
  from first_match_enum_fst [OF i]
  have il: "i < length cars_index" and ie: "cars_index ! i = (v, pos)" by simp_all
  let ?new = "join [BAR] [new_vin, b, c, d, e]"
  let ?upd = "cars_index[i := (new_vin, pos)]"
  let ?st = "snd (update_vin v new_vin st)"
  note st = update_vin_files [OF assms(1) i assms(3,4), of new_vin]
  have "set ?upd \<subseteq> insert (new_vin, pos) (set cars_index)" by (rule set_update_subset_insert)
  then have "\<forall>e\<in>set ?upd. key_ok (fst e)"
    using load_index_keys [OF assms(1)] assms(5) by auto
  then have "load_index (save_index (sort_key fst ?upd)) = Inr (sort_key fst ?upd)"
    by (rule load_save_sorted)
  then have l: "load_index (cars_index_file ?st) = Inr (sort_key fst ?upd)"
    by (simp only: st(2))
  have m: "(new_vin, pos) \<in> set (sort_key fst ?upd)" using il by (simp add: set_update_memI)
  have cr: "CR \<notin> set new_vin" using assms(5) by (simp add: key_ok_def)
  note rn = renamed_record [OF assms(3,4) cr assms(6)]
  have p: "0 \<le> pos" using assms(3) by (rule read_record_props)
  have "read_record (write_at (cars_file st) (nat pos * RECORD_SIZE_WITH_NL) (format_record ?new)) pos
          = Inr (rstrip ?new)"
    using p assms(7) rn(1) by (rule read_after_write)
  then have rd: "read_record (cars_file ?st) pos = Inr ?new"
    by (simp only: st(1) rn(2))
  from il ie l m rd rn(3) show ?thesis by blast
qed

lemma update_vin_other:
  assumes "load_index (cars_index_file st) = Inr cars_index"
      and "first_match_enum cars_index v 0 = Some (i, pos)"
      and "read_record (cars_file st) pos = Inr r"
      and "length (split_max BAR 4 r) \<noteq> 5"
  shows "cars_file (snd (update_vin v new_vin st)) = cars_file st"
    and "cars_index_file (snd (update_vin v new_vin st))
           = save_index (sort_key fst (cars_index[i := (new_vin, pos)]))"
  using assms by (simp_all add: update_vin_def Let_def)

lemma read_cut:
  assumes "CR \<notin> set d" and "RECORD_SIZE \<le> length d"
  shows "read_record (write_at f 0 (format_record d)) 0 = Inr (rstrip (take RECORD_SIZE d))"
proof -
  have fr: "format_record d = d @ [LF]" using assms(2) by (simp add: format_record_def ljust_long)
  obtain rest where r: "drop 0 (write_at f 0 (format_record d)) = format_record d @ rest"
    using drop_write_at [of "format_record d" 0 f] by auto
  have "universal_newlines (d @ (LF # rest)) = d @ universal_newlines (LF # rest)"
    using assms(1) by (rule universal_newlines_append)
  then have "take RECORD_SIZE (universal_newlines (format_record d @ rest)) = take RECORD_SIZE d"
    using assms(2) by (simp add: fr)
  then show ?thesis using r by (simp add: read_record_def)
qed

lemma get_car_by_vin_short:
  assumes "load_index (cars_index_file st) = Inr index"
      and "first_match index v = Some p"
      and "read_record (cars_file st) p = Inr r"
      and "r \<noteq> []" and "length (split_max BAR 4 r) < 5"
  shows "get_car_by_vin v st = Inl IndexError"
  using assms by (simp add: get_car_by_vin_def find_car_by_vin_def Let_def)

lemma key_ok_X: "key_ok (replicate 480 (CHR ''X''))"
  by (simp add: key_ok_def lstrip_def py_isspace_def)

lemma rename_long_example:
  "fst (update_vin (vin car_1) (replicate 480 (CHR ''X'')) store_1) = Inl IndexError
   \<and> read_record (cars_file (snd (update_vin (vin car_1) (replicate 480 (CHR ''X'')) store_1))) 0
       = Inr (replicate 480 (CHR ''X'') @ ''|1|2000|2024-02-08T0'')"
proof -
  let ?new = "replicate 480 (CHR ''X'')"
  let ?d = "join [BAR] [?new, model car_1, price car_1, date_start car_1, status car_1]"
  let ?cut = "?new @ ''|1|2000|2024-02-08T0''"
  let ?st = "store_1\<lparr>cars_file := write_at (cars_file store_1) (nat 0 * RECORD_SIZE_WITH_NL)
                                 (format_record ?d),
                  cars_index_file := save_index (sort_key fst
                                 ([(vin car_1, 0)][0 := (?new, 0)]))\<rparr>"
  have fe: "first_match_enum [(vin car_1, 0)] (vin car_1) 0 = Some (0, 0)" by simp
  have u: "update_vin (vin car_1) ?new store_1 = (get_car_by_vin ?new ?st, ?st)"
    using update_vin_found [OF store_1_index fe store_1_record
        car_data_split [OF car_text_ok_car_1], of ?new] by simp
  have d: "?d = ?new @ ''|1|2000|2024-02-08T00:00:00|available''" by (simp add: car_1_def)
  have c: "CR \<notin> set ?d" and n: "RECORD_SIZE \<le> length ?d"
    unfolding d by (simp_all add: RECORD_SIZE_def)
  have t: "take RECORD_SIZE ?d = ?cut" unfolding d by (simp add: RECORD_SIZE_def)
  have rs: "rstrip ?cut = ?cut" by (rule rstrip_id) (simp add: py_isspace_def)
  have rc: "read_record (write_at (cars_file store_1) 0 (format_record ?d)) 0 = Inr ?cut"
    using read_cut [OF c n, of "cars_file store_1"] by (simp only: t rs)
  have cf: "cars_file ?st = write_at (cars_file store_1) 0 (format_record ?d)"
    by (simp del: join.simps)
  have rd: "read_record (cars_file ?st) 0 = Inr ?cut"
    unfolding cf by (rule rc)
  have l: "load_index (cars_index_file ?st) = Inr [(?new, 0)]"
    using load_save_index [of "[(?new, 0)]"] key_ok_X by simp
  have sp: "split_max BAR 4 ?cut = [?new, ''1'', ''2000'', ''2024-02-08T0'']"
  proof -
    have "split_max BAR (Suc (Suc (Suc (Suc 0)))) (?new @ BAR # ''1'' @ BAR # ''2000'' @ BAR # ''2024-02-08T0'')
            = [?new, ''1'', ''2000'', ''2024-02-08T0'']"
      by (simp add: split_max_append split_max_no_sep)
    then show ?thesis by (simp add: eval_nat_numeral)
  qed
  have ne: "?cut \<noteq> []" by simp
  have fm: "first_match [(?new, 0)] ?new = Some 0" by simp
  have sl: "length (split_max BAR 4 ?cut) < 5" unfolding sp by simp
  have g: "get_car_by_vin ?new ?st = Inl IndexError"
    using l fm rd ne sl by (rule get_car_by_vin_short)
  have "fst (update_vin (vin car_1) ?new store_1) = Inl IndexError"
    unfolding u using g by (simp only: fst_conv)
  moreover have "read_record (cars_file (snd (update_vin (vin car_1) ?new store_1))) 0 = Inr ?cut"
    unfolding u using rd by (simp only: snd_conv)
  ultimately show ?thesis by (rule conjI)
qed

lemma sold_store_lookup:
  "get_car_by_vin ''KNAGM4A77D5316538''
     (store [] [] [''KNAGM4A77D5316538|1|2000|2024-02-08T00:00:00|sold'']
          [(''KNAGM4A77D5316538'', 0)] ss si)
     = Inr \<lparr>vin = ''KNAGM4A77D5316538'', model = ''1'', price = ''2000'',
              date_start = ''2024-02-08T00:00:00'', status = ''sold''\<rparr>"
  by (simp add: get_car_by_vin_store [where p = 0] text_simps decode_car_def eval_nat_numeral)

lemma strip_Nil_iff: "strip s = [] \<longleftrightarrow> (\<forall>c\<in>set s. py_isspace c)"
  by (induction s) (auto simp: strip_def rstrip_def lstrip_def dropWhile_eq_Nil_conv)

lemma strip_car_data: "strip (car_data car) \<noteq> []"
proof -
  have "BAR \<in> set (car_data car)" by (simp add: car_data_def)
  moreover have "\<not> py_isspace BAR" by (simp add: py_isspace_def)
  ultimately show ?thesis unfolding strip_Nil_iff by blast
qed

lemma slot_record_data_file:
  assumes "\<forall>d\<in>set ds. payload_ok d" and "i < length ds"
  shows "slot_record (data_file ds) i = rstrip (ds ! i)"
  using read_data_file [OF assms] by (simp add: read_record_slot)

lemma car_data_payload_ok: "car_text_ok car \<Longrightarrow> payload_ok (car_data car)"
  by (simp add: car_text_ok_def payload_ok_def)

lemma map_nth_filter: "map (nth xs) (filter (\<lambda>i. P (xs ! i)) [0 ..< length xs]) = filter P xs"
proof -
  have "filter P (map (nth xs) [0 ..< length xs])
          = map (nth xs) (filter (P \<circ> nth xs) [0 ..< length xs])"
    by (rule filter_map)
  then show ?thesis by (simp add: map_nth comp_def)
qed

lemma get_cars_scan:
  "get_cars s st = Inr (cars_with_status (cars_file st) s)"
proof (cases "length (cars_file st) = 0")
  case True
  then show ?thesis by (simp add: get_cars_def cars_with_status_def)
next
  case False
  then show ?thesis by (simp add: get_cars_def Let_def get_cars_loop_eq cars_with_status_def)
qed

lemma car_text_ok_others: "car_text_ok car_1b" "car_text_ok car_colon"
  by (simp_all add: car_1b_def car_colon_def car_text_ok_def car_data_def strip_def lstrip_def
      rstrip_def py_isspace_def RECORD_SIZE_def)

lemma three_cars_store:
  "cars_file (snd (add_car car_colon (snd (add_car car_1b store_1))))
     = data_file (map car_data [car_1, car_1b, car_colon])"
  unfolding store_1_store
  by (simp add: add_car_store text_simps car_data_def car_1b_def car_1_def car_colon_def)

lemma long_scan_av:
  "get_cars ''av'' (snd (add_car car_long init_fs))
     = Inr [\<lparr>vin = replicate 470 (CHR ''A''), model = ''1'', price = ''2000'',
              date_start = ''2024-02-08T00:00:00'', status = ''av''\<rparr>]"
proof -
  have s: "slot_record (car_data car_long @ [LF]) 0
             = replicate 470 (CHR ''A'') @ ''|1|2000|2024-02-08T00:00:00|av''"
    using read_long read_record_slot [of "car_data car_long @ [LF]" 0] by simp
  have n: "strip (replicate 470 (CHR ''A'') @ ''|1|2000|2024-02-08T00:00:00|av'') \<noteq> []"
    unfolding strip_Nil_iff by (simp add: py_isspace_def)
  have h: "slot_has_status (car_data car_long @ [LF]) ''av'' 0"
    using n by (simp add: slot_has_status_def s split_long)
       (simp add: strip_def lstrip_def rstrip_def py_isspace_def)
  have c: "car_at (car_data car_long @ [LF]) 0
            = \<lparr>vin = replicate 470 (CHR ''A''), model = ''1'', price = ''2000'',
              date_start = ''2024-02-08T00:00:00'', status = ''av''\<rparr>"
    by (simp add: car_at_def s split_long decode_car_def strip_replicate_A)
       (simp add: strip_def lstrip_def rstrip_def py_isspace_def)
  show ?thesis
    unfolding add_car_long
    using h c
    by (simp add: get_cars_def Let_def get_cars_loop_eq length_car_data_long
        RECORD_SIZE_WITH_NL_def)
qed

lemma sell_car_missing_state:
  assumes "load_index (sales_index_file st) = Inr sales_index"
      and "load_index (cars_index_file st) = Inr cars_index"
      and "first_match cars_index (car_vin sale) = None"
  shows "sell_car sale st =
           (Inl (CarNotFound (car_vin sale)),
            st\<lparr>sales_file := take (nat (find_free_position (sales_file st)) * RECORD_SIZE_WITH_NL)
                                 (sales_file st) @ format_record (sale_data sale),
               sales_index_file := save_index (sort_key fst
                   (sales_index @ [(sales_number sale, find_free_position (sales_file st))]))\<rparr>)
         \<and> drop (nat (find_free_position (sales_file st)) * RECORD_SIZE_WITH_NL)
                 (sales_file (snd (sell_car sale st))) = format_record (sale_data sale)
         \<and> sale_data sale = sales_number sale @ [BAR] @ car_vin sale @ [BAR] @ cost sale @ [BAR]
                               @ sales_date sale @ ''|False''
         \<and> cars_file (snd (sell_car sale st)) = cars_file st
         \<and> cars_index_file (snd (sell_car sale st)) = cars_index_file st"
proof -
  let ?p = "find_free_position (sales_file st)"
  let ?st2 = "st\<lparr>sales_file := write_at (sales_file st) (nat ?p * RECORD_SIZE_WITH_NL)
                     (format_record (sale_data sale)),
                 sales_index_file := save_index (sort_key fst
                     (sales_index @ [(sales_number sale, ?p)]))\<rparr>"
  have c: "load_index (cars_index_file ?st2) = Inr cars_index" using assms(2) by simp
  have u: "update_car_status (car_vin sale) CarStatus_sold ?st2 = (Inr (), ?st2)"
    using c assms(3) by (rule update_car_status_missing)
  have g: "get_car_by_vin (car_vin sale) ?st2 = Inl (CarNotFound (car_vin sale))"
    using c assms(3) by (rule get_car_by_vin_missing)
  have s: "sell_car sale st = (Inl (CarNotFound (car_vin sale)), ?st2)"
    by (simp add: sell_car_unfold [OF assms(1)] u g)
  have le: "nat ?p * RECORD_SIZE_WITH_NL \<le> length (sales_file st)"
    by (simp add: find_free_position_def)
  have d: "sale_data sale = sales_number sale @ [BAR] @ car_vin sale @ [BAR] @ cost sale @ [BAR]
                               @ sales_date sale @ ''|False''"
    by (simp add: sale_data_def)
  have w: "write_at (sales_file st) (nat ?p * RECORD_SIZE_WITH_NL) (format_record (sale_data sale))
           = take (nat ?p * RECORD_SIZE_WITH_NL) (sales_file st) @ format_record (sale_data sale)"
    by (rule append_at_free_position)
  have s': "sell_car sale st =
           (Inl (CarNotFound (car_vin sale)),
            st\<lparr>sales_file := take (nat ?p * RECORD_SIZE_WITH_NL) (sales_file st)
                                 @ format_record (sale_data sale),
               sales_index_file := save_index (sort_key fst
                   (sales_index @ [(sales_number sale, ?p)]))\<rparr>)"
    unfolding s w ..
  have dr: "drop (nat ?p * RECORD_SIZE_WITH_NL) (sales_file (snd (sell_car sale st)))
            = format_record (sale_data sale)"
    unfolding s' using le by simp
  have c1: "cars_file (snd (sell_car sale st)) = cars_file st"
    and c2: "cars_index_file (snd (sell_car sale st)) = cars_index_file st"
    unfolding s' by simp_all
  from s' dr d c1 c2 show ?thesis by (intro conjI)
qed

lemma distinct_map_insort_key:
  "distinct (map g (insort_key f x xs)) \<longleftrightarrow> g x \<notin> g ` set xs \<and> distinct (map g xs)"
  by (induction xs) (auto simp: set_insort_key)

lemma distinct_map_sort_key: "distinct (map g (sort_key f xs)) \<longleftrightarrow> distinct (map g xs)"
  by (induction xs) (simp_all add: sort_key_simps distinct_map_insort_key)

lemma repo_inv_Nil: "repo_inv [] []"
  by (simp add: repo_inv_def)

lemma repo_inv_entry:
  assumes "repo_inv cars index" and "e \<in> set index"
  shows "0 \<le> snd e" and "nat (snd e) < length cars" and "vin (cars ! nat (snd e)) = fst e"
  using assms by (auto simp: repo_inv_def list_all_iff)

lemma repo_inv_car:
  assumes "repo_inv cars index" and "i < length cars"
  shows "car_text_ok (cars ! i)"
  using assms by (simp add: repo_inv_def list_all_iff)

lemma repo_inv_payloads: "repo_inv cars index \<Longrightarrow> payloads_ok (map car_data cars)"
  by (auto simp: repo_inv_def payloads_ok_ball list_all_iff car_data_payload_ok)

lemma repo_inv_add:
  assumes "repo_inv cars index" and "key_ok (vin car)" and "car_text_ok car"
  shows "repo_inv (cars @ [car]) (sort_key fst (index @ [(vin car, int (length cars))]))"
proof -
  have io: "index_ok index" and di: "distinct (map snd index)" and le: "length index = length cars"
    and co: "list_all car_text_ok cars"
    using assms(1) by (simp_all add: repo_inv_def)
  have r: "nat (snd e) < length cars" if "e \<in> set index" for e
    using repo_inv_entry(2) [OF assms(1) that] .
  have n: "int (length cars) \<notin> snd ` set index"
  proof
    assume "int (length cars) \<in> snd ` set index"
    then obtain e where "e \<in> set index" and "snd e = int (length cars)" by auto
    then show False using r [of e] by simp
  qed
  have a: "list_all car_text_ok (cars @ [car])" using co assms(3) by simp
  have b: "index_ok (sort_key fst (index @ [(vin car, int (length cars))]))"
    using io assms(2) by (rule index_ok_insert)
  have c: "distinct (map snd (sort_key fst (index @ [(vin car, int (length cars))])))"
    using di n by (simp add: distinct_map_sort_key)
  have d: "length (sort_key fst (index @ [(vin car, int (length cars))])) = length (cars @ [car])"
    using le by simp
  have e: "0 \<le> snd e \<and> nat (snd e) < length (cars @ [car])
            \<and> vin ((cars @ [car]) ! nat (snd e)) = fst e"
    if "e \<in> set (index @ [(vin car, int (length cars))])" for e
  proof (cases "e \<in> set index")
    case True
    from repo_inv_entry [OF assms(1) True] show ?thesis by (simp add: nth_append)
  next
    case False
    then have "e = (vin car, int (length cars))" using that by simp
    then show ?thesis by simp
  qed
  have f: "list_all (\<lambda>e. 0 \<le> snd e \<and> nat (snd e) < length (cars @ [car])
            \<and> vin ((cars @ [car]) ! nat (snd e)) = fst e)
            (sort_key fst (index @ [(vin car, int (length cars))]))"
    unfolding list_all_iff using e by simp
  from a b c d f show ?thesis unfolding repo_inv_def by (intro conjI)
qed

lemma add_step:
  assumes "repo_inv cars index" and "op_ok (Add car)"
  shows "apply_op (Add car) (store ms mi (map car_data cars) index ss si)
           = store ms mi (map car_data (cars @ [car]))
               (sort_key fst (index @ [(vin car, int (length cars))])) ss si
         \<and> repo_inv (cars @ [car]) (sort_key fst (index @ [(vin car, int (length cars))]))"
proof -
  have io: "index_ok index" using assms(1) by (simp add: repo_inv_def)
  have "add_car car (store ms mi (map car_data cars) index ss si)
          = (Inr car, store ms mi (map car_data cars @ [car_data car])
                (sort_key fst (index @ [(vin car, int (length (map car_data cars)))])) ss si)"
    using repo_inv_payloads [OF assms(1)] io by (rule add_car_store)
  then have "apply_op (Add car) (store ms mi (map car_data cars) index ss si)
           = store ms mi (map car_data (cars @ [car]))
               (sort_key fst (index @ [(vin car, int (length cars))])) ss si"
    by simp
  moreover have "repo_inv (cars @ [car]) (sort_key fst (index @ [(vin car, int (length cars))]))"
    using assms by (simp add: repo_inv_add)
  ultimately show ?thesis by (rule conjI)
qed

lemma update_vin_store_missing:
  assumes "index_ok ci" and "first_match ci v = None"
  shows "update_vin v new_vin (store ms mi cs ci ss si)
           = (Inl (CarNotFound v), store ms mi cs ci ss si)"
proof -
  have "first_match_enum ci v 0 = None"
  proof (cases "first_match_enum ci v 0")
    case None then show ?thesis .
  next
    case (Some a)
    obtain j p where "a = (j, p)" by (cases a)
    with Some first_match_enum_fst [of ci v 0 j p] assms(2) show ?thesis by simp
  qed
  then show ?thesis by (simp add: update_vin_def load_index_ok [OF assms(1)])
qed

lemma car_text_ok_rename:
  assumes "car_text_ok car" and "key_ok new_vin" and "BAR \<notin> set new_vin"
      and "strip new_vin = new_vin" and "length new_vin \<le> length (vin car)"
  shows "car_text_ok (car\<lparr>vin := new_vin\<rparr>)"
  using assms by (auto simp: car_text_ok_def car_data_def key_ok_def)

lemma join_rename:
  "join [BAR] ([vin car, model car, price car, date_start car, status car][0 := new_vin])
     = car_data (car\<lparr>vin := new_vin\<rparr>)"
  by (simp add: car_data_def)

lemma repo_inv_rename:
  assumes "repo_inv cars index" and "i < length index" and "index ! i = (v, p)"
      and "key_ok new_vin" and "BAR \<notin> set new_vin" and "strip new_vin = new_vin"
      and "length new_vin \<le> length v"
  shows "repo_inv (cars[nat p := (cars ! nat p)\<lparr>vin := new_vin\<rparr>])
           (sort_key fst (index[i := (new_vin, p)]))"
proof -
  let ?cars = "cars[nat p := (cars ! nat p)\<lparr>vin := new_vin\<rparr>]"
  let ?upd = "index[i := (new_vin, p)]"
  have io: "index_ok index" and di: "distinct (map snd index)" and le: "length index = length cars"
    and co: "list_all car_text_ok cars"
    using assms(1) by (simp_all add: repo_inv_def)
  have m: "(v, p) \<in> set index" using assms(2,3) by (metis nth_mem)
  note ent = repo_inv_entry [OF assms(1) m]
  have p0: "0 \<le> p" and pl: "nat p < length cars" and pv: "vin (cars ! nat p) = v"
    using ent by simp_all
  have ok: "car_text_ok (cars ! nat p)" using assms(1) pl by (rule repo_inv_car)
  have ok': "car_text_ok ((cars ! nat p)\<lparr>vin := new_vin\<rparr>)"
    using ok assms(4,5,6) assms(7) [folded pv] by (rule car_text_ok_rename)
  have a: "list_all car_text_ok ?cars"
    unfolding list_all_iff using set_update_subset_insert [of cars "nat p"] co ok'
    by (auto simp: list_all_iff)
  have k: "\<forall>e\<in>set (sort_key fst ?upd). key_ok (fst e)"
    using io assms(4) by (intro key_ok_update) (simp add: index_ok_ball)
  have b: "index_ok (sort_key fst ?upd)" using k by (simp add: index_ok_ball)
  have ms: "map snd ?upd = map snd index"
    using assms(2,3) by (simp add: map_update list_update_same_conv)
  have c: "distinct (map snd (sort_key fst ?upd))"
    using di by (simp only: distinct_map_sort_key ms)
  have d: "length (sort_key fst ?upd) = length ?cars" using le by simp
  have e: "0 \<le> snd e \<and> nat (snd e) < length ?cars \<and> vin (?cars ! nat (snd e)) = fst e"
    if "e \<in> set ?upd" for e
  proof -
    from that obtain j where j: "j < length index" and ej: "e = ?upd ! j"
      by (metis in_set_conv_nth length_list_update)
    show ?thesis
    proof (cases "j = i")
      case True
      then have "e = (new_vin, p)" using ej assms(2) by simp
      then show ?thesis using p0 pl by simp
    next
      case False
      then have ei: "e = index ! j" using ej by simp
      then have me: "e \<in> set index" using j by simp
      have "snd (index ! j) \<noteq> snd (index ! i)"
        using di j assms(2) False by (metis distinct_conv_nth length_map nth_map)
      then have ne: "snd e \<noteq> p" using ei assms(3) by simp
      note en = repo_inv_entry [OF assms(1) me]
      have "nat (snd e) \<noteq> nat p" using ne en(1) p0 by simp
      then show ?thesis using en by simp
    qed
  qed
  have f: "list_all (\<lambda>e. 0 \<le> snd e \<and> nat (snd e) < length ?cars
            \<and> vin (?cars ! nat (snd e)) = fst e) (sort_key fst ?upd)"
    unfolding list_all_iff using e by simp
  from a b c d f show ?thesis unfolding repo_inv_def by (intro conjI)
qed

lemma rename_step:
  assumes "repo_inv cars index" and "op_ok (Rename v new_vin)"
  shows "\<exists>cars' index'.
           apply_op (Rename v new_vin) (store ms mi (map car_data cars) index ss si)
             = store ms mi (map car_data cars') index' ss si
           \<and> repo_inv cars' index'"
proof (cases "first_match index v")
  case None
  have io: "index_ok index" using assms(1) by (simp add: repo_inv_def)
  have "apply_op (Rename v new_vin) (store ms mi (map car_data cars) index ss si)
          = store ms mi (map car_data cars) index ss si"
    by (simp add: update_vin_store_missing [OF io None])
  then show ?thesis using assms(1) by blast
next
  case (Some p)
  obtain i where fe: "first_match_enum index v 0 = Some (i, p)"
    using first_match_enum_exists [OF Some] by blast
  from first_match_enum_fst [OF fe]
  have il: "i < length index" and ie: "index ! i = (v, p)" by simp_all
  have io: "index_ok index" using assms(1) by (simp add: repo_inv_def)
  have m: "(v, p) \<in> set index" using il ie by (metis nth_mem)
  note ent = repo_inv_entry [OF assms(1) m]
  have p0: "0 \<le> p" and pl: "nat p < length cars" and pv: "vin (cars ! nat p) = v"
    using ent by simp_all
  let ?c = "cars ! nat p"
  let ?c' = "?c\<lparr>vin := new_vin\<rparr>"
  let ?cs = "map car_data cars"
  have k: "key_ok new_vin" and nb: "BAR \<notin> set new_vin" and sn: "strip new_vin = new_vin"
    and ln: "length new_vin \<le> length v"
    using assms(2) by simp_all
  have ok: "car_text_ok ?c" using assms(1) pl by (rule repo_inv_car)
  have ok': "car_text_ok ?c'" using ok k nb sn ln [folded pv] by (rule car_text_ok_rename)
  have rec: "rstrip (?cs ! nat p) = car_data ?c" using pl ok by (simp add: car_data_rstrip)
  have sp: "split_max BAR 4 (rstrip (?cs ! nat p))
              = [vin ?c, model ?c, price ?c, date_start ?c, status ?c]"
    unfolding rec using ok by (rule car_data_split)
  have l5: "length (split_max BAR 4 (rstrip (?cs ! nat p))) = 5" unfolding sp by simp
  have jn: "join [BAR] ((split_max BAR 4 (rstrip (?cs ! nat p)))[0 := new_vin]) = car_data ?c'"
    unfolding sp by (rule join_rename)
  have po: "payload_ok (join [BAR] ((split_max BAR 4 (rstrip (?cs ! nat p)))[0 := new_vin]))"
    unfolding jn using ok' by (rule car_data_payload_ok)
  have pl': "nat p < length ?cs" using pl by simp
  note u = update_vin_store [OF repo_inv_payloads [OF assms(1)] io fe p0 pl' l5 po,
      of ms mi ss si]
  have cs': "?cs[nat p := car_data ?c'] = map car_data (cars[nat p := ?c'])"
    by (simp add: map_update)
  have "apply_op (Rename v new_vin) (store ms mi ?cs index ss si)
          = store ms mi (map car_data (cars[nat p := ?c']))
              (sort_key fst (index[i := (new_vin, p)])) ss si"
    unfolding apply_op.simps u snd_conv jn cs' ..
  moreover have "repo_inv (cars[nat p := ?c']) (sort_key fst (index[i := (new_vin, p)]))"
    using assms(1) il ie k nb sn ln by (rule repo_inv_rename)
  ultimately show ?thesis by blast
qed

lemma op_step:
  assumes "repo_inv cars index" and "op_ok rop"
  shows "\<exists>cars' index'.
           apply_op rop (store ms mi (map car_data cars) index ss si)
             = store ms mi (map car_data cars') index' ss si
           \<and> repo_inv cars' index'"
proof (cases rop)
  case (Add car)
  then show ?thesis using add_step [OF assms(1), of car ms mi ss si] assms(2) by blast
next
  case (Rename v new_vin)
  then show ?thesis using rename_step [OF assms(1), of v new_vin ms mi ss si] assms(2) by blast
qed

lemma run_ops_inv:
  assumes "list_all op_ok rops" and "repo_inv cars index"
  shows "\<exists>cars' index'.
           run_ops rops (store ms mi (map car_data cars) index ss si)
             = store ms mi (map car_data cars') index' ss si
           \<and> repo_inv cars' index'"
  using assms
proof (induction rops arbitrary: cars index)
  case Nil
  then show ?case by (auto simp: run_ops_def)
next
  case (Cons rop rops)
  from Cons.prems have o: "op_ok rop" and r: "list_all op_ok rops" by simp_all
  from op_step [OF Cons.prems(2) o, of ms mi ss si]
  obtain cars1 index1 where
    s: "apply_op rop (store ms mi (map car_data cars) index ss si)
          = store ms mi (map car_data cars1) index1 ss si"
    and i: "repo_inv cars1 index1" by blast
  from Cons.IH [OF r i] show ?case by (simp add: run_ops_def s)
qed

section \<open>Record store: what encoding and slot counting do\<close>

text \<open>
  C1 (as stated, refuted).  A payload of 501 bytes is encoded without any failure:
  the result is the whole payload and the terminator, 502 bytes, and \<open>add_car\<close> on
  the empty store returns normally with those 502 bytes as the data file.
\<close>

theorem format_record_no_overflow_error:
  "format_record (replicate 501 (CHR ''A'')) = replicate 501 (CHR ''A'') @ [LF]
   \<and> length (format_record (replicate 501 (CHR ''A''))) = 502
   \<and> fst (add_car \<lparr>vin = replicate 497 (CHR ''A''), model = [], price = [],
                    date_start = [], status = []\<rparr> init_fs)
       = Inr \<lparr>vin = replicate 497 (CHR ''A''), model = [], price = [],
                date_start = [], status = []\<rparr>
   \<and> length (cars_file (snd (add_car \<lparr>vin = replicate 497 (CHR ''A''), model = [], price = [],
                    date_start = [], status = []\<rparr> init_fs))) = 502"
  by (simp add: format_record_def ljust_def RECORD_SIZE_def add_car_def Let_def
        find_free_position_def write_record_def write_at_def init_fs_def load_index_empty
        car_data_def)

text \<open>
  C1 (amended).  Encoding never fails.  A payload longer than \<open>RECORD_SIZE\<close> is
  encoded as the whole payload followed by the line terminator: nothing is cut
  off, and the record is one byte longer than the payload, so longer than a slot.
  The write path stores it as it is: \<open>write_record\<close> at a position that is not
  negative succeeds, and from the offset of the slot on the file holds the whole
  payload and the terminator.
\<close>

theorem format_record_oversized:
  assumes "RECORD_SIZE < length data"
  shows "format_record data = data @ [LF]
         \<and> length (format_record data) = length data + 1
         \<and> RECORD_SIZE_WITH_NL < length (format_record data)
         \<and> (0 \<le> pos \<longrightarrow>
              (\<exists>stored. write_record file pos (format_record data) = Inr stored
                 \<and> take (length data + 1) (drop (nat pos * RECORD_SIZE_WITH_NL) stored)
                     = data @ [LF]))"
proof -
  have f: "format_record data = data @ [LF]"
    using assms by (simp add: format_record_def ljust_def)
  have l: "length (format_record data) = length data + 1" by (simp add: f)
  have g: "RECORD_SIZE_WITH_NL < length (format_record data)"
    using assms by (simp add: l RECORD_SIZE_def RECORD_SIZE_WITH_NL_def)
  have w: "0 \<le> pos \<longrightarrow>
              (\<exists>stored. write_record file pos (format_record data) = Inr stored
                 \<and> take (length data + 1) (drop (nat pos * RECORD_SIZE_WITH_NL) stored)
                     = data @ [LF])"
  proof
    assume p: "0 \<le> pos"
    let ?stored = "write_at file (nat pos * RECORD_SIZE_WITH_NL) (data @ [LF])"
    obtain rest where "drop (nat pos * RECORD_SIZE_WITH_NL) ?stored = (data @ [LF]) @ rest"
      using drop_write_at [of "data @ [LF]" "nat pos * RECORD_SIZE_WITH_NL" "file"] by auto
    then have "take (length data + 1) (drop (nat pos * RECORD_SIZE_WITH_NL) ?stored) = data @ [LF]"
      by simp
    moreover have "write_record file pos (format_record data) = Inr ?stored"
      using p by (simp add: write_record_ok f)
    ultimately show "\<exists>stored. write_record file pos (format_record data) = Inr stored
                 \<and> take (length data + 1) (drop (nat pos * RECORD_SIZE_WITH_NL) stored)
                     = data @ [LF]" by blast
  qed
  from f l g w show ?thesis by (intro conjI)
qed

theorem format_record_oversized_witness:
  "RECORD_SIZE < length (replicate 501 (CHR ''A''))
   \<and> format_record (replicate 501 (CHR ''A'')) = replicate 501 (CHR ''A'') @ [LF]
   \<and> length (format_record (replicate 501 (CHR ''A''))) = 502
   \<and> (0::int) \<le> 0
   \<and> (\<exists>stored. write_record [] 0 (format_record (replicate 501 (CHR ''A''))) = Inr stored
         \<and> take 502 (drop 0 stored) = replicate 501 (CHR ''A'') @ [LF])
   \<and> write_record [] 0 (format_record (replicate 501 (CHR ''A'')))
       = Inr (replicate 501 (CHR ''A'') @ [LF])"
proof -
  have h: "RECORD_SIZE < length (replicate 501 (CHR ''A''))" by (simp add: RECORD_SIZE_def)
  note w = format_record_oversized [OF h, of 0 "[]"]
  have a: "format_record (replicate 501 (CHR ''A'')) = replicate 501 (CHR ''A'') @ [LF]"
    using w by (rule conjunct1)
  have b: "length (format_record (replicate 501 (CHR ''A''))) = 502"
    using w [THEN conjunct2, THEN conjunct1] by simp
  have z: "(0::int) \<le> 0" by simp
  have c: "\<exists>stored. write_record [] 0 (format_record (replicate 501 (CHR ''A''))) = Inr stored
         \<and> take 502 (drop 0 stored) = replicate 501 (CHR ''A'') @ [LF]"
    using w [THEN conjunct2, THEN conjunct2, THEN conjunct2, THEN mp, OF z] by simp
  have d: "write_record [] 0 (format_record (replicate 501 (CHR ''A'')))
       = Inr (replicate 501 (CHR ''A'') @ [LF])"
    unfolding a by (simp add: write_record_def write_at_def)
  from h a b z c d show ?thesis by (intro conjI)
qed

text \<open>
  C6 (as stated, refuted).  A data file of one byte, which is no multiple of 501,
  has free position 0 and no failure; \<open>add_car\<close> on such a file returns normally
  and writes its record at offset 0.
\<close>

theorem find_free_position_no_corrupt_error:
  "find_free_position ''x'' = 0
   \<and> fst (add_car \<lparr>vin = ''V'', model = ''1'', price = ''2'', date_start = ''d'',
                    status = ''available''\<rparr> (init_fs\<lparr>cars_file := ''x''\<rparr>))
       = Inr \<lparr>vin = ''V'', model = ''1'', price = ''2'', date_start = ''d'',
               status = ''available''\<rparr>
   \<and> length (cars_file (snd (add_car \<lparr>vin = ''V'', model = ''1'', price = ''2'',
        date_start = ''d'', status = ''available''\<rparr> (init_fs\<lparr>cars_file := ''x''\<rparr>)))) = 501"
  by (simp add: format_record_def ljust_def RECORD_SIZE_def RECORD_SIZE_WITH_NL_def
        add_car_def Let_def find_free_position_def write_record_def write_at_def init_fs_def
        load_index_empty car_data_def)

text \<open>
  C6 (amended).  The slot count never fails: for a data file of any size it is the
  size divided by 501 rounded down, that is the one \<open>q\<close> with
  \<open>501 * q \<le> size < 501 * (q + 1)\<close>; a size that is no multiple of 501 is not reported.
\<close>

theorem find_free_position_floor:
  "\<exists>q r. length file = RECORD_SIZE_WITH_NL * q + r \<and> r < RECORD_SIZE_WITH_NL
         \<and> RECORD_SIZE_WITH_NL = 501 \<and> find_free_position file = int q"
proof -
  let ?q = "length file div RECORD_SIZE_WITH_NL"
  let ?r = "length file mod RECORD_SIZE_WITH_NL"
  have "length file = RECORD_SIZE_WITH_NL * ?q + ?r" by simp
  moreover have "?r < RECORD_SIZE_WITH_NL" by (simp add: RECORD_SIZE_WITH_NL_def)
  moreover have "find_free_position file = int ?q" by (simp add: find_free_position_def)
  ultimately show ?thesis by (metis RECORD_SIZE_WITH_NL_def)
qed

section \<open>Round trip of a car\<close>

text \<open>
  C3 (as stated, refuted).  Five cars that \<open>add_car\<close> accepts and returns, and what an
  immediate lookup under their VIN gives.  A car with a payload of 507 characters
  comes back with the status \<open>av\<close> for \<open>available\<close>: the record is read cut at 500
  characters.  A second car under a VIN that is indexed already is answered with
  the first car under that VIN.  A car with the separator in its VIN comes back
  with every field shifted.  A car with a colon in its VIN leaves an index file
  that no longer loads, and the lookup raises.  A car whose VIN begins with a
  blank is indexed under the stripped VIN, and the lookup does not find it.
\<close>

theorem add_car_roundtrip_fails:
  "fst (add_car car_long init_fs) = Inr car_long
   \<and> length (car_data car_long) = 507
   \<and> get_car_by_vin (vin car_long) (snd (add_car car_long init_fs))
       = Inr \<lparr>vin = replicate 470 (CHR ''A''), model = ''1'', price = ''2000'',
               date_start = ''2024-02-08T00:00:00'', status = ''av''\<rparr>
   \<and> status car_long = ''available''
   \<and> fst (add_car car_1b store_1) = Inr car_1b
   \<and> get_car_by_vin (vin car_1b) (snd (add_car car_1b store_1)) = Inr car_1
   \<and> model car_1b = ''2'' \<and> model car_1 = ''1''
   \<and> fst (add_car car_bar init_fs) = Inr car_bar
   \<and> get_car_by_vin (vin car_bar) (snd (add_car car_bar init_fs))
       = Inr \<lparr>vin = ''A'', model = ''B'', price = ''1'', date_start = ''2000'',
               status = ''2024-02-08T00:00:00|available''\<rparr>
   \<and> fst (add_car car_colon init_fs) = Inr car_colon
   \<and> get_car_by_vin (vin car_colon) (snd (add_car car_colon init_fs))
       = Inl (InvalidIntLiteral ''b:0'')
   \<and> fst (add_car car_blank init_fs) = Inr car_blank
   \<and> get_car_by_vin (vin car_blank) (snd (add_car car_blank init_fs))
       = Inl (CarNotFound '' V'')"
proof -
  have a1: "fst (add_car car_long init_fs) = Inr car_long" by (simp add: add_car_long)
  have a4: "status car_long = ''available''" by (simp add: car_long_def)
  have b1: "fst (add_car car_1b store_1) = Inr car_1b" by (simp add: add_duplicate_example)
  have b2: "get_car_by_vin (vin car_1b) (snd (add_car car_1b store_1)) = Inr car_1"
    using duplicate_lookup_example by (rule conjunct1)
  have b3: "model car_1b = ''2''" and b4: "model car_1 = ''1''"
    by (simp_all add: car_1b_def car_1_def)
  note c1 = bar_lookup_example [THEN conjunct1] and c2 = bar_lookup_example [THEN conjunct2]
  have d1: "fst (add_car car_colon init_fs) = Inr car_colon"
    using colon_lookup_example by simp
  note d2 = colon_lookup_example [THEN conjunct2]
  have e1: "fst (add_car car_blank init_fs) = Inr car_blank"
    using blank_lookup_example by simp
  note e2 = blank_lookup_example [THEN conjunct2]
  from a1 length_car_data_long long_lookup_example a4 b1 b2 b3 b4 c1 c2 d1 d2 e1 e2
  show ?thesis by (intro conjI)
qed

text \<open>
  C3 (amended).  A car added with \<open>add_car\<close> is returned by an immediate lookup under
  its VIN with the same \<open>vin\<close>, \<open>model\<close>, \<open>price\<close>, \<open>date_start\<close> and \<open>status\<close>,
  when the cars index file is one that loads and does not hold the VIN yet, the
  VIN has no colon and no line break and does not begin with a space character,
  no field before the status holds the separator, no field begins or ends with a
  space character, and the payload has at most 500 characters and no carriage
  return.
\<close>

theorem add_car_roundtrip:
  assumes "load_index (cars_index_file st) = Inr index"
      and "first_match index (vin car) = None"
      and "key_ok (vin car)"
      and "car_text_ok car"
  shows "fst (add_car car st) = Inr car
         \<and> get_car_by_vin (vin car) (snd (add_car car st)) = Inr car"
proof -
  let ?p = "find_free_position (cars_file st)"
  let ?st = "snd (add_car car st)"
  have st: "cars_index_file ?st = save_index (sort_key fst (index @ [(vin car, ?p)]))"
           "cars_file ?st = write_at (cars_file st) (nat ?p * RECORD_SIZE_WITH_NL)
                              (format_record (car_data car))"
    by (simp_all add: add_car_result [OF assms(1)])
  have l: "load_index (cars_index_file ?st) = Inr (sort_key fst (index @ [(vin car, ?p)]))"
    unfolding st(1) using assms(1,3) by (rule load_save_loaded)
  have m: "first_match (sort_key fst (index @ [(vin car, ?p)])) (vin car) = Some ?p"
    using assms(2) by (rule first_match_fresh)
  have "length (car_data car) \<le> RECORD_SIZE" "CR \<notin> set (car_data car)"
    using assms(4) by (simp_all add: car_text_ok_def)
  then have r: "read_record (cars_file ?st) ?p = Inr (car_data car)"
    unfolding st(2) using read_after_write [of ?p "car_data car"] car_data_rstrip [OF assms(4)]
    by simp
  have "get_car_by_vin (vin car) ?st = Inr car"
    using l m r assms(4) by (rule get_car_by_vin_at)
  then show ?thesis by (simp add: add_car_result [OF assms(1)])
qed

theorem add_car_roundtrip_witness:
  "load_index (cars_index_file init_fs) = Inr []
   \<and> first_match [] (vin car_1) = None \<and> key_ok (vin car_1) \<and> car_text_ok car_1
   \<and> fst (add_car car_1 init_fs) = Inr car_1
   \<and> get_car_by_vin (vin car_1) (snd (add_car car_1 init_fs)) = Inr car_1"
proof -
  have l: "load_index (cars_index_file init_fs) = Inr []"
    by (simp add: init_fs_def load_index_empty)
  have f: "first_match [] (vin car_1) = None" by simp
  show ?thesis
    using add_car_roundtrip [OF l f key_ok_car_1 car_text_ok_car_1] l f key_ok_car_1
      car_text_ok_car_1 by simp
qed

section \<open>Selling a car that is not indexed\<close>



section \<open>Renaming a key\<close>




section \<open>Two cars under one VIN\<close>



section \<open>The life of a sale\<close>




section \<open>Cars by status\<close>




end
